theory Spec2Isabelle
  imports Main
begin

section \<open>Domain availability checker: the orchestration layer\<close>

text \<open>
  A shallow embedding of the multi-session scraper (the result store
  \<open>safelyReadResultsFile\<close> / \<open>safelyWriteResultsFile\<close>, the session worker
  \<open>processDomainBatch\<close> and the orchestrator \<open>run\<close>).

  The file system, the clock, the remote browser session and the other actors that
  touch the output file are made explicit in a \<open>world\<close> record.  Every JavaScript
  exception is a value of type \<open>exn\<close>; a computation is a function from a state to a
  result (\<open>Inl\<close> an exception, \<open>Inr\<close> a value) and the next state.
\<close>

subsection \<open>JavaScript strings\<close>

text \<open>
  Strings are lists of code units, restricted to ASCII.  \<open>String.prototype.trim\<close>
  removes white space and line terminators at both ends; in ASCII these are TAB, LF,
  VT, FF, CR and SPACE.
\<close>

definition js_whitespace :: "char \<Rightarrow> bool" where
  "js_whitespace c =
     (c = CHR 0x09 \<or> c = CHR 0x0A \<or> c = CHR 0x0B \<or> c = CHR 0x0C \<or> c = CHR 0x0D \<or> c = CHR 0x20)"

definition trim :: "string \<Rightarrow> string" where
  "trim s = rev (dropWhile js_whitespace (rev (dropWhile js_whitespace s)))"

text \<open>\<open>s.split('\n')\<close>: the pieces between line feeds; one more piece than line feeds.\<close>

fun split_lines :: "string \<Rightarrow> string list" where
  "split_lines [] = [[]]"
| "split_lines (c # cs) =
     (if c = CHR 0x0A then [] # split_lines cs
      else (case split_lines cs of
              [] \<Rightarrow> [[c]]
            | l # ls \<Rightarrow> (c # l) # ls))"

text \<open>
  \<open>[...new Set(xs)]\<close>: a JavaScript \<open>Set\<close> keeps its elements in insertion order and
  ignores the insertion of an element it already holds.
\<close>

definition set_add :: "'a list \<Rightarrow> 'a \<Rightarrow> 'a list" where
  "set_add s x = (if x \<in> set s then s else s @ [x])"

definition new_Set :: "'a list \<Rightarrow> 'a list" where
  "new_Set xs = foldl set_add [] xs"

text \<open>Decimal rendering of a number inside a template string.\<close>

fun show_nat :: "nat \<Rightarrow> string" where
  "show_nat n =
     (if n < 10 then [''0123456789'' ! n]
      else show_nat (n div 10) @ [''0123456789'' ! (n mod 10)])"

declare show_nat.simps [simp del]

subsection \<open>JSON values and the property accesses made on them\<close>

text \<open>
  \<open>JSON.parse\<close> returns an arbitrary JSON value: the cast \<open>as DomainEntry[]\<close> is not
  checked at run time.  An object is the list of its members in source order; of two
  members with one key the later one wins.
\<close>

datatype json =
    JNull
  | JBool bool
  | JNum int
  | JStr string
  | JArr "json list"
  | JObj "(string \<times> json) list"

datatype exn = IOError | SyntaxError | TypeError | RemoteError

datatype status = Available | Unavailable | Unknown | Error

fun status_string :: "status \<Rightarrow> string" where
  "status_string Available = ''available''"
| "status_string Unavailable = ''unavailable''"
| "status_string Unknown = ''unknown''"
| "status_string Error = ''error''"

text \<open>The object literal \<open>{ domain, status }\<close>.\<close>

definition DomainEntry :: "string \<Rightarrow> status \<Rightarrow> json" where
  "DomainEntry d s = JObj [(''domain'', JStr d), (''status'', JStr (status_string s))]"

text \<open>
  \<open>v.k\<close> for a key \<open>k\<close> that no prototype defines (\<open>domain\<close>, \<open>status\<close>): a
  \<open>TypeError\<close> on \<open>null\<close>, the member of an object, \<open>undefined\<close> (\<open>None\<close>) otherwise.
\<close>

fun js_prop :: "string \<Rightarrow> json \<Rightarrow> exn + json option" where
  "js_prop k JNull = Inl TypeError"
| "js_prop k (JObj kvs) = Inr (map_of (rev kvs) k)"
| "js_prop k v = Inr None"

text \<open>
  The conversion of a value to a string, as a template literal makes it, throws a
  \<open>TypeError\<close> for an object that has a member \<open>toString\<close> of its own (no JSON value is
  callable, so neither that member nor a member \<open>valueOf\<close> of its own can be called, and
  the inherited \<open>valueOf\<close> returns the object itself), and for an array one of whose
  elements it throws for (\<open>Array.prototype.join\<close> converts every element other than
  \<open>null\<close>).  Every other value has a string.
\<close>

fun to_string_throws :: "json \<Rightarrow> bool" where
  "to_string_throws (JObj kvs) = (''toString'' \<in> fst ` set kvs)"
| "to_string_throws (JArr es) = (\<exists>e \<in> set es. to_string_throws e)"
| "to_string_throws v = False"

text \<open>
  The template literal \<open>`${v.length}`\<close> of the log lines: a \<open>TypeError\<close> on \<open>null\<close>, which
  has no properties, and on an object whose member \<open>length\<close> has no string.  The length
  of an array or of a string is a number, and a number or a boolean has no \<open>length\<close>
  (\<open>undefined\<close>).
\<close>

fun js_length :: "json \<Rightarrow> exn + unit" where
  "js_length JNull = Inl TypeError"
| "js_length (JObj kvs) =
     (case map_of (rev kvs) ''length'' of
        None \<Rightarrow> Inr ()
      | Some x \<Rightarrow> if to_string_throws x then Inl TypeError else Inr ())"
| "js_length v = Inr ()"

text \<open>
  \<open>xs.map(entry => entry.domain)\<close>: a \<open>TypeError\<close> unless \<open>xs\<close> is an array (no other
  JSON value has a callable \<open>map\<close>) none of whose elements is \<open>null\<close>.
\<close>

fun map_props :: "string \<Rightarrow> json list \<Rightarrow> exn + json option list" where
  "map_props k [] = Inr []"
| "map_props k (e # es) =
     (case js_prop k e of
        Inl x \<Rightarrow> Inl x
      | Inr p \<Rightarrow> (case map_props k es of Inl x \<Rightarrow> Inl x | Inr ps \<Rightarrow> Inr (p # ps)))"

fun map_domain :: "json \<Rightarrow> exn + json option list" where
  "map_domain (JArr es) = map_props ''domain'' es"
| "map_domain v = Inl TypeError"

text \<open>\<open>xs.filter(entry => entry.status !== 'error')\<close>.\<close>

fun filter_valid_entries :: "json list \<Rightarrow> exn + json list" where
  "filter_valid_entries [] = Inr []"
| "filter_valid_entries (e # es) =
     (case js_prop ''status'' e of
        Inl x \<Rightarrow> Inl x
      | Inr p \<Rightarrow>
          (case filter_valid_entries es of
             Inl x \<Rightarrow> Inl x
           | Inr vs \<Rightarrow> Inr (if p \<noteq> Some (JStr ''error'') then e # vs else vs)))"

fun filter_valid :: "json \<Rightarrow> exn + json" where
  "filter_valid (JArr es) =
     (case filter_valid_entries es of Inl x \<Rightarrow> Inl x | Inr vs \<Rightarrow> Inr (JArr vs))"
| "filter_valid v = Inl TypeError"

text \<open>\<open>xs.push(e)\<close> and \<open>xs.length\<close> of an array.\<close>

fun js_push :: "json \<Rightarrow> json \<Rightarrow> exn + json" where
  "js_push (JArr es) e = Inr (JArr (es @ [e]))"
| "js_push v e = Inl TypeError"

fun array_length :: "json \<Rightarrow> nat" where
  "array_length (JArr es) = length es"
| "array_length v = 0"

text \<open>No two records of a store share a domain.\<close>

fun unique_domains :: "json \<Rightarrow> bool" where
  "unique_domains (JArr es) =
     (case map_props ''domain'' es of Inl x \<Rightarrow> False | Inr ps \<Rightarrow> distinct ps)"
| "unique_domains v = False"

subsection \<open>The world: files, clock, faults, other actors\<close>

text \<open>
  \<open>faults\<close> schedules the outcome of the next file-system calls that can throw (an
  empty schedule: every call succeeds).  A failing \<open>writeFileSync\<close> or \<open>copyFileSync\<close>
  may leave a prefix of the content behind.  \<open>pending\<close> schedules what other actors
  (sibling workers, other processes) do to the files while this computation waits at an
  \<open>await\<close>; one entry is consumed per \<open>await\<close>.  \<open>trace\<close> records what happened.
\<close>

datatype outcome = Succeed | Throw | ThrowAfter nat

datatype ext = ExtNone | ExtWrite string string | ExtDelete string

datatype message =
    DomainsFileNotFound
  | NoDomainsFound
  | NothingToDo
  | AllChecked
  | Skipping nat string
  | Checking nat string
  | Saved nat string
  | SkippingSave nat string
  | DomainError nat string
  | SaveErrorFailed nat string
  | SessionError nat
  | SessionClosed nat
  | CloseError nat
  | ReadFailed
  | WriteFailed
  | MainError
  | UnhandledMainError

datatype event =
    EvMkdir string
  | EvRead string string
  | EvWrite string string
  | EvCopy string string string
  | EvRename string string string
  | EvSleep nat
  | EvExt ext
  | EvSession nat
  | EvProbe string
  | EvClose nat
  | EvLog message

record world =
  files :: "string \<Rightarrow> string option"
  dirs :: "string set"
  now :: nat
  faults :: "outcome list"
  pending :: "ext list"
  trace :: "event list"

type_synonym ('s, 'a) io = "'s \<Rightarrow> (exn + 'a) \<times> 's"

definition io_return :: "'a \<Rightarrow> ('s, 'a) io" where
  "io_return x = (\<lambda>s. (Inr x, s))"

definition io_throw :: "exn \<Rightarrow> ('s, 'a) io" where
  "io_throw e = (\<lambda>s. (Inl e, s))"

definition io_bind :: "('s, 'a) io \<Rightarrow> ('a \<Rightarrow> ('s, 'b) io) \<Rightarrow> ('s, 'b) io" where
  "io_bind m f = (\<lambda>s. case m s of (Inl e, s') \<Rightarrow> (Inl e, s') | (Inr x, s') \<Rightarrow> f x s')"

text \<open>\<open>try { m } catch (e) { h e }\<close>.\<close>

definition io_catch :: "('s, 'a) io \<Rightarrow> (exn \<Rightarrow> ('s, 'a) io) \<Rightarrow> ('s, 'a) io" where
  "io_catch m h = (\<lambda>s. case m s of (Inl e, s') \<Rightarrow> h e s' | (Inr x, s') \<Rightarrow> (Inr x, s'))"

text \<open>\<open>try { m } finally { fin }\<close>: an exception of \<open>fin\<close> replaces the outcome of \<open>m\<close>.\<close>

definition io_finally :: "('s, 'a) io \<Rightarrow> ('s, unit) io \<Rightarrow> ('s, 'a) io" where
  "io_finally m fin =
     (\<lambda>s. case m s of
             (r, s') \<Rightarrow> (case fin s' of (Inl e, s'') \<Rightarrow> (Inl e, s'') | (Inr u, s'') \<Rightarrow> (r, s'')))"

text \<open>A pure step that may throw, and \<open>if (b) { m }\<close>.\<close>

definition io_of :: "exn + 'a \<Rightarrow> ('s, 'a) io" where
  "io_of r = (\<lambda>s. (r, s))"

definition io_when :: "bool \<Rightarrow> ('s, unit) io \<Rightarrow> ('s, unit) io" where
  "io_when b m = (if b then m else io_return ())"

definition emit :: "event \<Rightarrow> world \<Rightarrow> world" where
  "emit e w = w\<lparr>trace := trace w @ [e]\<rparr>"

definition console :: "message \<Rightarrow> (world, unit) io" where
  "console m = (\<lambda>w. (Inr (), emit (EvLog m) w))"

definition next_outcome :: "world \<Rightarrow> outcome \<times> world" where
  "next_outcome w =
     (case faults w of [] \<Rightarrow> (Succeed, w) | x # xs \<Rightarrow> (x, w\<lparr>faults := xs\<rparr>))"

text \<open>\<open>fs.existsSync\<close> never throws.\<close>

definition existsSync :: "string \<Rightarrow> world \<Rightarrow> bool" where
  "existsSync p w = (files w p \<noteq> None \<or> p \<in> dirs w)"

definition io_exists :: "string \<Rightarrow> (world, bool) io" where
  "io_exists p = (\<lambda>w. (Inr (existsSync p w), w))"

definition mkdirSync :: "string \<Rightarrow> (world, unit) io" where
  "mkdirSync d = (\<lambda>w.
     case next_outcome w of
       (Succeed, w') \<Rightarrow> (Inr (), emit (EvMkdir d) (w'\<lparr>dirs := insert d (dirs w')\<rparr>))
     | (x, w') \<Rightarrow> (Inl IOError, w'))"

definition readFileSync :: "string \<Rightarrow> (world, string) io" where
  "readFileSync p = (\<lambda>w.
     case next_outcome w of
       (Succeed, w') \<Rightarrow>
         (case files w' p of
            None \<Rightarrow> (Inl IOError, w')
          | Some c \<Rightarrow> (Inr c, emit (EvRead p c) w'))
     | (x, w') \<Rightarrow> (Inl IOError, w'))"

definition writeFileSync :: "string \<Rightarrow> string \<Rightarrow> (world, unit) io" where
  "writeFileSync p c = (\<lambda>w.
     case next_outcome w of
       (Succeed, w') \<Rightarrow> (Inr (), emit (EvWrite p c) (w'\<lparr>files := (files w')(p \<mapsto> c)\<rparr>))
     | (Throw, w') \<Rightarrow> (Inl IOError, w')
     | (ThrowAfter n, w') \<Rightarrow>
         (Inl IOError, emit (EvWrite p (take n c)) (w'\<lparr>files := (files w')(p \<mapsto> take n c)\<rparr>)))"

definition copyFileSync :: "string \<Rightarrow> string \<Rightarrow> (world, unit) io" where
  "copyFileSync src dst = (\<lambda>w.
     case next_outcome w of
       (Succeed, w') \<Rightarrow>
         (case files w' src of
            None \<Rightarrow> (Inl IOError, w')
          | Some c \<Rightarrow> (Inr (), emit (EvCopy src dst c) (w'\<lparr>files := (files w')(dst \<mapsto> c)\<rparr>)))
     | (Throw, w') \<Rightarrow> (Inl IOError, w')
     | (ThrowAfter n, w') \<Rightarrow>
         (case files w' src of
            None \<Rightarrow> (Inl IOError, w')
          | Some c \<Rightarrow>
              (Inl IOError,
               emit (EvCopy src dst (take n c)) (w'\<lparr>files := (files w')(dst \<mapsto> take n c)\<rparr>))))"

text \<open>\<open>fs.renameSync\<close> is atomic: it moves the whole file or throws and changes nothing.\<close>

definition renameSync :: "string \<Rightarrow> string \<Rightarrow> (world, unit) io" where
  "renameSync src dst = (\<lambda>w.
     case next_outcome w of
       (Succeed, w') \<Rightarrow>
         (case files w' src of
            None \<Rightarrow> (Inl IOError, w')
          | Some c \<Rightarrow>
              (Inr (),
               emit (EvRename src dst c) (w'\<lparr>files := ((files w')(src := None))(dst \<mapsto> c)\<rparr>)))
     | (x, w') \<Rightarrow> (Inl IOError, w'))"

text \<open>What another actor does to the files, and the suspension of the computation.\<close>

fun apply_ext :: "ext \<Rightarrow> world \<Rightarrow> world" where
  "apply_ext ExtNone w = w"
| "apply_ext (ExtWrite p c) w = emit (EvExt (ExtWrite p c)) (w\<lparr>files := (files w)(p \<mapsto> c)\<rparr>)"
| "apply_ext (ExtDelete p) w = emit (EvExt (ExtDelete p)) (w\<lparr>files := (files w)(p := None)\<rparr>)"

definition yield :: "world \<Rightarrow> world" where
  "yield w = (case pending w of [] \<Rightarrow> w | x # xs \<Rightarrow> apply_ext x (w\<lparr>pending := xs\<rparr>))"

definition await :: "(world, 'a) io \<Rightarrow> (world, 'a) io" where
  "await m = (\<lambda>w. case m w of (r, w') \<Rightarrow> (r, yield w'))"

text \<open>\<open>await new Promise(resolve => setTimeout(resolve, ms))\<close>.\<close>

definition sleep :: "nat \<Rightarrow> world \<Rightarrow> world" where
  "sleep ms w = yield (emit (EvSleep ms) (w\<lparr>now := now w + ms\<rparr>))"

subsection \<open>What the program takes from its libraries and from the remote service\<close>

text \<open>
  \<open>JSON_parse\<close> is \<open>JSON.parse\<close> (\<open>None\<close>: it throws a \<open>SyntaxError\<close>), \<open>JSON_stringify\<close>
  is \<open>v \<mapsto> JSON.stringify(v, null, 4)\<close>, \<open>path_dirname\<close> and \<open>path_join\<close> are Node's,
  \<open>projectRoot\<close> is \<open>path.resolve(__dirname, '..')\<close>.  The remote browser session is an
  oracle: \<open>session_create\<close> answers the Browserbase and Stagehand initialisation,
  \<open>probe\<close> answers \<open>checkDomainAvailabilityName\<close> (every statement of which is a call
  into the remote page), \<open>session_close\<close> answers \<open>stagehand.close()\<close>.
\<close>

record env =
  JSON_parse :: "string \<Rightarrow> json option"
  JSON_stringify :: "json \<Rightarrow> string"
  path_dirname :: "string \<Rightarrow> string"
  path_join :: "string \<Rightarrow> string \<Rightarrow> string"
  projectRoot :: string
  session_create :: "nat \<Rightarrow> exn + unit"
  probe :: "string \<Rightarrow> exn + status"
  session_close :: "nat \<Rightarrow> exn + unit"

definition io_parse :: "env \<Rightarrow> string \<Rightarrow> (world, json) io" where
  "io_parse E s = io_of (case JSON_parse E s of None \<Rightarrow> Inl SyntaxError | Some v \<Rightarrow> Inr v)"

definition io_now :: "(world, nat) io" where
  "io_now = (\<lambda>w. (Inr (now w), w))"

subsection \<open>The result store: \<open>safelyReadResultsFile\<close>\<close>

text \<open>The body of the \<open>try\<close> block of one attempt.\<close>

definition read_attempt :: "env \<Rightarrow> string \<Rightarrow> (world, json) io" where
  "read_attempt E filePath =
     io_bind (io_exists filePath) (\<lambda>present.
       if \<not> present then
         io_bind (io_exists (path_dirname E filePath)) (\<lambda>dir_present.
         io_bind (io_when (\<not> dir_present) (mkdirSync (path_dirname E filePath))) (\<lambda>_.
         io_bind (writeFileSync filePath (JSON_stringify E (JArr []))) (\<lambda>_.
         io_return (JArr []))))
       else
         io_bind (readFileSync filePath) (\<lambda>data.
           if trim data = [] then io_return (JArr [])
           else
             io_catch
               (io_bind (io_parse E data) (\<lambda>results.
                io_bind (io_of (js_length results)) (\<lambda>_.
                io_return results)))
               (\<lambda>parseError.
                  io_bind io_now (\<lambda>t.
                  io_bind (copyFileSync filePath (filePath @ ''.backup.'' @ show_nat t)) (\<lambda>_.
                  io_bind (writeFileSync filePath (JSON_stringify E (JArr []))) (\<lambda>_.
                  io_return (JArr [])))))))"

function safelyRead_loop :: "env \<Rightarrow> string \<Rightarrow> nat \<Rightarrow> nat \<Rightarrow> (world, json) io" where
  "safelyRead_loop E filePath maxRetries retries w =
     (if retries < maxRetries then
        (case read_attempt E filePath w of
           (Inr v, w') \<Rightarrow> (Inr v, w')
         | (Inl e, w') \<Rightarrow> safelyRead_loop E filePath maxRetries (retries + 1) (sleep 1000 w'))
      else (Inr (JArr []), emit (EvLog ReadFailed) w))"
  by pat_completeness auto
termination
  by (relation "measure (\<lambda>(E, filePath, maxRetries, retries, w). maxRetries - retries)") auto

definition safelyReadResultsFile :: "env \<Rightarrow> string \<Rightarrow> (world, json) io" where
  "safelyReadResultsFile E filePath = safelyRead_loop E filePath 3 0"

subsection \<open>The result store: \<open>safelyWriteResultsFile\<close>\<close>

definition write_attempt :: "env \<Rightarrow> string \<Rightarrow> json \<Rightarrow> (world, bool) io" where
  "write_attempt E filePath data =
     io_bind (io_exists (path_dirname E filePath)) (\<lambda>dir_present.
     io_bind (io_when (\<not> dir_present) (mkdirSync (path_dirname E filePath))) (\<lambda>_.
     io_bind (io_exists filePath) (\<lambda>present.
     io_bind (io_when present (copyFileSync filePath (filePath @ ''.backup''))) (\<lambda>_.
     io_bind (writeFileSync (filePath @ ''.tmp'') (JSON_stringify E data)) (\<lambda>_.
     io_bind (io_of (js_length data)) (\<lambda>_.
     io_bind (renameSync (filePath @ ''.tmp'') filePath) (\<lambda>_.
     io_return True)))))))"

function safelyWrite_loop :: "env \<Rightarrow> string \<Rightarrow> json \<Rightarrow> nat \<Rightarrow> nat \<Rightarrow> (world, bool) io" where
  "safelyWrite_loop E filePath data maxRetries retries w =
     (if retries < maxRetries then
        (case write_attempt E filePath data w of
           (Inr b, w') \<Rightarrow> (Inr b, w')
         | (Inl e, w') \<Rightarrow>
             safelyWrite_loop E filePath data maxRetries (retries + 1)
               (sleep (1000 * (retries + 1)) w'))
      else (Inr False, emit (EvLog WriteFailed) w))"
  by pat_completeness auto
termination
  by (relation "measure (\<lambda>(E, filePath, data, maxRetries, retries, w). maxRetries - retries)") auto

definition safelyWriteResultsFile :: "env \<Rightarrow> string \<Rightarrow> json \<Rightarrow> (world, bool) io" where
  "safelyWriteResultsFile E filePath data = safelyWrite_loop E filePath data 3 0"

subsection \<open>The result store of \<open>scrape/scraper.ts\<close>\<close>

text \<open>
  The file \<open>scrape/scraper.ts\<close> has an earlier copy of the two functions.  Its
  \<open>safelyReadResultsFile\<close> returns \<open>[]\<close> for an absent file without creating it, and
  returns \<open>JSON.parse(content)\<close> at once; a \<open>SyntaxError\<close> is one more failed attempt.
  Its \<open>safelyWriteResultsFile\<close> makes no backup copy, and waits 1000 ms after every
  failed attempt.
\<close>

definition read_attempt_scraper :: "env \<Rightarrow> string \<Rightarrow> (world, json) io" where
  "read_attempt_scraper E filePath =
     io_bind (io_exists filePath) (\<lambda>present.
       if \<not> present then io_return (JArr [])
       else
         io_bind (readFileSync filePath) (\<lambda>content.
           if trim content = [] then io_return (JArr [])
           else io_parse E content))"

function safelyRead_loop_scraper :: "env \<Rightarrow> string \<Rightarrow> nat \<Rightarrow> nat \<Rightarrow> (world, json) io" where
  "safelyRead_loop_scraper E filePath maxRetries retries w =
     (if retries < maxRetries then
        (case read_attempt_scraper E filePath w of
           (Inr v, w') \<Rightarrow> (Inr v, w')
         | (Inl e, w') \<Rightarrow>
             safelyRead_loop_scraper E filePath maxRetries (retries + 1) (sleep 1000 w'))
      else (Inr (JArr []), emit (EvLog ReadFailed) w))"
  by pat_completeness auto
termination
  by (relation "measure (\<lambda>(E, filePath, maxRetries, retries, w). maxRetries - retries)") auto

definition safelyReadResultsFile_scraper :: "env \<Rightarrow> string \<Rightarrow> (world, json) io" where
  "safelyReadResultsFile_scraper E filePath = safelyRead_loop_scraper E filePath 3 0"




subsection \<open>The availability checker and the remote session\<close>

definition initializeBrowserbaseSession :: "env \<Rightarrow> nat \<Rightarrow> (world, unit) io" where
  "initializeBrowserbaseSession E sessionNumber =
     await (\<lambda>w. (session_create E sessionNumber, emit (EvSession sessionNumber) w))"

definition checkDomainAvailabilityName :: "env \<Rightarrow> string \<Rightarrow> (world, status) io" where
  "checkDomainAvailabilityName E domain = (\<lambda>w. (probe E domain, emit (EvProbe domain) w))"

definition checkDomainAvailability :: "env \<Rightarrow> string \<Rightarrow> (world, status) io" where
  "checkDomainAvailability E domain =
     io_catch (await (checkDomainAvailabilityName E domain)) (\<lambda>error. io_return Error)"

definition stagehand_close :: "env \<Rightarrow> nat \<Rightarrow> (world, unit) io" where
  "stagehand_close E sessionNumber =
     (\<lambda>w. (session_close E sessionNumber, emit (EvClose sessionNumber) w))"

subsection \<open>The session worker: \<open>processDomainBatch\<close>\<close>

text \<open>
  The variables of \<open>processDomainBatch\<close> that outlive a statement.  An exception leaves
  the assignments made before it in place, so they are part of the state.
\<close>

record locals =
  stagehand :: bool
  currentResults :: json
  checkedDomainsSet :: "json option set"

definition lift :: "(world, 'a) io \<Rightarrow> (locals \<times> world, 'a) io" where
  "lift m = (\<lambda>(l, w). case m w of (r, w') \<Rightarrow> (r, (l, w')))"

definition get_stagehand :: "(locals \<times> world, bool) io" where
  "get_stagehand = (\<lambda>(l, w). (Inr (stagehand l), (l, w)))"

definition get_checked :: "(locals \<times> world, json option set) io" where
  "get_checked = (\<lambda>(l, w). (Inr (checkedDomainsSet l), (l, w)))"

definition assign_stagehand :: "bool \<Rightarrow> (locals \<times> world, unit) io" where
  "assign_stagehand b = (\<lambda>(l, w). (Inr (), (l\<lparr>stagehand := b\<rparr>, w)))"

definition assign_currentResults :: "json \<Rightarrow> (locals \<times> world, unit) io" where
  "assign_currentResults v = (\<lambda>(l, w). (Inr (), (l\<lparr>currentResults := v\<rparr>, w)))"

definition assign_checked :: "json option set \<Rightarrow> (locals \<times> world, unit) io" where
  "assign_checked c = (\<lambda>(l, w). (Inr (), (l\<lparr>checkedDomainsSet := c\<rparr>, w)))"

text \<open>The \<open>try\<close> block of one iteration of the loop over the batch.\<close>

definition domain_try :: "env \<Rightarrow> nat \<Rightarrow> string \<Rightarrow> string \<Rightarrow> (locals \<times> world, unit) io" where
  "domain_try E sessionNumber outputPath domain =
     io_bind get_checked (\<lambda>checked.
       if Some (JStr domain) \<in> checked then lift (console (Skipping sessionNumber domain))
       else
         io_bind (lift (console (Checking sessionNumber domain))) (\<lambda>_.
         io_bind (lift (await (checkDomainAvailability E domain))) (\<lambda>status.
         io_bind (lift (await (safelyReadResultsFile E outputPath))) (\<lambda>results.
         io_bind (assign_currentResults results) (\<lambda>_.
         io_bind (io_of (map_domain results)) (\<lambda>ds.
         io_bind (assign_checked (set ds)) (\<lambda>_.
           if Some (JStr domain) \<notin> set ds then
             io_bind (io_of (js_push results (DomainEntry domain status))) (\<lambda>pushed.
             io_bind (assign_currentResults pushed) (\<lambda>_.
             io_bind (lift (await (safelyWriteResultsFile E outputPath pushed))) (\<lambda>_.
             io_bind (lift (console (Saved sessionNumber domain))) (\<lambda>_.
             assign_checked (insert (Some (JStr domain)) (set ds))))))
           else lift (console (SkippingSave sessionNumber domain)))))))))"

text \<open>Its \<open>catch (domainError)\<close> block, with the \<open>try\<close>/\<open>catch (saveError)\<close> inside.\<close>

definition domain_catch :: "env \<Rightarrow> nat \<Rightarrow> string \<Rightarrow> string \<Rightarrow> (locals \<times> world, unit) io" where
  "domain_catch E sessionNumber outputPath domain =
     io_bind (lift (console (DomainError sessionNumber domain))) (\<lambda>_.
     io_catch
       (io_bind (lift (await (safelyReadResultsFile E outputPath))) (\<lambda>results.
        io_bind (assign_currentResults results) (\<lambda>_.
        io_bind (io_of (map_domain results)) (\<lambda>ds.
        io_bind (assign_checked (set ds)) (\<lambda>_.
          if Some (JStr domain) \<notin> set ds then
            io_bind (io_of (js_push results (DomainEntry domain Error))) (\<lambda>pushed.
            io_bind (assign_currentResults pushed) (\<lambda>_.
            io_bind (lift (await (safelyWriteResultsFile E outputPath pushed))) (\<lambda>_.
            assign_checked (insert (Some (JStr domain)) (set ds)))))
          else io_return ())))))
       (\<lambda>saveError. lift (console (SaveErrorFailed sessionNumber domain))))"

definition process_domain :: "env \<Rightarrow> nat \<Rightarrow> string \<Rightarrow> string \<Rightarrow> (locals \<times> world, unit) io" where
  "process_domain E sessionNumber outputPath domain =
     io_catch (domain_try E sessionNumber outputPath domain)
              (\<lambda>domainError. domain_catch E sessionNumber outputPath domain)"

text \<open>\<open>for (const x of xs) { body }\<close>: an exception of the body leaves the loop.\<close>

primrec for_of :: "'a list \<Rightarrow> ('a \<Rightarrow> ('s, unit) io) \<Rightarrow> ('s, unit) io" where
  "for_of [] body = (\<lambda>s. (Inr (), s))"
| "for_of (x # xs) body =
     (\<lambda>s. case body x s of (Inl e, s') \<Rightarrow> (Inl e, s') | (Inr u, s') \<Rightarrow> for_of xs body s')"

definition batch_try :: "env \<Rightarrow> string list \<Rightarrow> nat \<Rightarrow> string \<Rightarrow> (locals \<times> world, unit) io" where
  "batch_try E domains sessionNumber outputPath =
     io_bind (lift (await (initializeBrowserbaseSession E sessionNumber))) (\<lambda>_.
     io_bind (assign_stagehand True) (\<lambda>_.
     io_bind (lift (await (safelyReadResultsFile E outputPath))) (\<lambda>results.
     io_bind (assign_currentResults results) (\<lambda>_.
     io_bind (io_of (map_domain results)) (\<lambda>ds.
     io_bind (assign_checked (set ds)) (\<lambda>_.
     for_of domains (process_domain E sessionNumber outputPath)))))))"

definition batch_finally :: "env \<Rightarrow> nat \<Rightarrow> (locals \<times> world, unit) io" where
  "batch_finally E sessionNumber =
     io_bind get_stagehand (\<lambda>sh.
     io_when sh
       (io_catch
          (io_bind (lift (await (stagehand_close E sessionNumber))) (\<lambda>_.
           lift (console (SessionClosed sessionNumber))))
          (\<lambda>closeError. lift (console (CloseError sessionNumber)))))"

definition processDomainBatch :: "env \<Rightarrow> string list \<Rightarrow> nat \<Rightarrow> string \<Rightarrow> (world, unit) io" where
  "processDomainBatch E domains sessionNumber outputPath = (\<lambda>w.
     case io_finally
            (io_catch (batch_try E domains sessionNumber outputPath)
                      (\<lambda>sessionError. lift (console (SessionError sessionNumber))))
            (batch_finally E sessionNumber)
            (\<lparr>stagehand = False, currentResults = JArr [], checkedDomainsSet = {}\<rparr>, w)
     of (r, (l, w')) \<Rightarrow> (r, w'))"

subsection \<open>The batch partitioner\<close>

text \<open>
  \<open>domainsToCheck.forEach((domain, index) => domainBatches[index % n].push(domain))\<close> on
  \<open>Array.from({ length: n }, () => [])\<close>, with \<open>n = Math.min(3, domainsToCheck.length)\<close>.
  The index is below \<open>n\<close> whenever there is a domain, so no write is out of range.
\<close>

fun distribute :: "nat \<Rightarrow> nat \<Rightarrow> 'a list \<Rightarrow> 'a list list \<Rightarrow> 'a list list" where
  "distribute n index [] batches = batches"
| "distribute n index (d # ds) batches =
     distribute n (index + 1) ds (batches[index mod n := batches ! (index mod n) @ [d]])"

definition numberOfSessions :: "'a list \<Rightarrow> nat" where
  "numberOfSessions domainsToCheck = min 3 (length domainsToCheck)"

definition domainBatches :: "'a list \<Rightarrow> 'a list list" where
  "domainBatches domainsToCheck =
     distribute (numberOfSessions domainsToCheck) 0 domainsToCheck
       (replicate (numberOfSessions domainsToCheck) [])"

subsection \<open>The orchestrator: \<open>run\<close>\<close>

text \<open>The domain list read from the input file, de-duplicated.\<close>

definition uniqueDomains :: "string \<Rightarrow> string list" where
  "uniqueDomains domainsContent =
     new_Set (filter (\<lambda>d. d \<noteq> []) (map trim (split_lines domainsContent)))"

text \<open>
  \<open>Promise.all\<close> over the workers.  No worker's promise rejects, so the call resolves
  whatever the interleaving; the workers are run here in the schedule that completes
  them one after the other, and what other actors do in between comes from \<open>pending\<close>.
\<close>

primrec promise_all :: "(world, unit) io list \<Rightarrow> (world, unit) io" where
  "promise_all [] = (\<lambda>w. (Inr (), w))"
| "promise_all (m # ms) =
     (\<lambda>w. case m w of
             (Inl e, w') \<Rightarrow> (case promise_all ms w' of (r, w'') \<Rightarrow> (Inl e, w''))
           | (Inr u, w') \<Rightarrow> promise_all ms w')"

text \<open>
  The part of \<open>run\<close> that reconciles the input with the store: it reads the store, drops
  the records with status \<open>error\<close>, saves the rest back if any was dropped, and returns
  the domains still to check.
\<close>

definition reconcile :: "env \<Rightarrow> string \<Rightarrow> string list \<Rightarrow> (world, string list) io" where
  "reconcile E outputPath unique =
     io_bind (await (safelyReadResultsFile E outputPath)) (\<lambda>existingResults.
     io_bind (io_of (js_length existingResults)) (\<lambda>_.
     io_bind (io_of (filter_valid existingResults)) (\<lambda>validResults.
     io_bind (io_when (array_length validResults < array_length existingResults)
                (io_bind (await (safelyWriteResultsFile E outputPath validResults)) (\<lambda>_.
                 io_return ()))) (\<lambda>_.
     io_bind (io_of (map_domain validResults)) (\<lambda>checked.
     io_return (filter (\<lambda>domain. Some (JStr domain) \<notin> set checked) unique))))))"

definition run_try :: "env \<Rightarrow> (world, unit) io" where
  "run_try E =
     (let inputDir = path_join E (projectRoot E) ''input'';
          outputDir = path_join E (projectRoot E) ''output'';
          domainsPath = path_join E inputDir ''domains.txt'';
          outputPath = path_join E outputDir ''domain.json''
      in
        io_bind (io_exists inputDir) (\<lambda>input_present.
        io_bind (io_when (\<not> input_present) (mkdirSync inputDir)) (\<lambda>_.
        io_bind (io_exists outputDir) (\<lambda>output_present.
        io_bind (io_when (\<not> output_present) (mkdirSync outputDir)) (\<lambda>_.
        io_bind (io_exists domainsPath) (\<lambda>domains_present.
          if \<not> domains_present then console DomainsFileNotFound
          else
            io_bind (readFileSync domainsPath) (\<lambda>domainsContent.
              if filter (\<lambda>d. d \<noteq> []) (map trim (split_lines domainsContent)) = []
              then console NoDomainsFound
              else
                io_bind (reconcile E outputPath (uniqueDomains domainsContent)) (\<lambda>domainsToCheck.
                  if domainsToCheck = [] then console NothingToDo
                  else
                    io_bind
                      (await (promise_all
                         (map (\<lambda>(batch, index). processDomainBatch E batch (index + 1) outputPath)
                              (zip (domainBatches domainsToCheck)
                                   [0..<length (domainBatches domainsToCheck)]))))
                      (\<lambda>_. console AllChecked)))))))))"

definition run :: "env \<Rightarrow> (world, unit) io" where
  "run E = io_catch (run_try E) (\<lambda>error. console MainError)"

text \<open>
  \<open>run().catch(error => { ...; process.exit(1) })\<close>: the exit status of the process, which
  is 0 when the promise of \<open>run\<close> resolves and the event loop drains.
\<close>

definition main_exit :: "env \<Rightarrow> world \<Rightarrow> nat \<times> world" where
  "main_exit E w =
     (case run E w of
        (Inr u, w') \<Rightarrow> (0, w')
      | (Inl e, w') \<Rightarrow> (1, emit (EvLog UnhandledMainError) w'))"

subsection \<open>A reference instance of the library functions\<close>

text \<open>
  The theorems below hold for every \<open>env\<close>.  To run the model on concrete files, this
  instance implements \<open>JSON.stringify(v, null, 4)\<close> and \<open>JSON.parse\<close> for the fragment of
  JSON that the store uses and a little more: \<open>null\<close>, \<open>true\<close>, \<open>false\<close>, integers,
  strings of ASCII characters with the two-character escapes, arrays, and objects
  without repeated keys.  Fractions, exponents and \<open>\u\<close> escapes are outside the
  fragment (the parser answers \<open>None\<close> on them, which no statement below relies on).
\<close>

definition show_int :: "int \<Rightarrow> string" where
  "show_int i = (if i < 0 then CHR ''-'' # show_nat (nat (- i)) else show_nat (nat i))"

definition hex4 :: "nat \<Rightarrow> string" where
  "hex4 n = [CHR ''0'', CHR ''0'', ''0123456789abcdef'' ! (n div 16), ''0123456789abcdef'' ! (n mod 16)]"

definition escape_char :: "char \<Rightarrow> string" where
  "escape_char c =
     (if c = CHR 0x22 then [CHR 0x5C, CHR 0x22]
      else if c = CHR 0x5C then [CHR 0x5C, CHR 0x5C]
      else if c = CHR 0x08 then [CHR 0x5C, CHR ''b'']
      else if c = CHR 0x0C then [CHR 0x5C, CHR ''f'']
      else if c = CHR 0x0A then [CHR 0x5C, CHR ''n'']
      else if c = CHR 0x0D then [CHR 0x5C, CHR ''r'']
      else if c = CHR 0x09 then [CHR 0x5C, CHR ''t'']
      else if of_char c < (32 :: nat) then [CHR 0x5C, CHR ''u''] @ hex4 (of_char c)
      else [c])"

definition quote :: "string \<Rightarrow> string" where
  "quote s = CHR 0x22 # concat (map escape_char s) @ [CHR 0x22]"

fun join_lines :: "string list \<Rightarrow> string" where
  "join_lines [] = []"
| "join_lines [x] = x"
| "join_lines (x # y # ys) = x @ [CHR '','', CHR 0x0A] @ join_lines (y # ys)"

fun stringify_at :: "nat \<Rightarrow> json \<Rightarrow> string" where
  "stringify_at ind JNull = ''null''"
| "stringify_at ind (JBool b) = (if b then ''true'' else ''false'')"
| "stringify_at ind (JNum i) = show_int i"
| "stringify_at ind (JStr s) = quote s"
| "stringify_at ind (JArr es) =
     (if es = [] then ''[]''
      else ''['' @ [CHR 0x0A]
           @ join_lines (map (\<lambda>e. replicate (ind + 4) CHR '' '' @ stringify_at (ind + 4) e) es)
           @ [CHR 0x0A] @ replicate ind CHR '' '' @ '']'')"
| "stringify_at ind (JObj kvs) =
     (if kvs = [] then ''{}''
      else ''{'' @ [CHR 0x0A]
           @ join_lines (map (\<lambda>kv. replicate (ind + 4) CHR '' '' @ quote (fst kv) @ '': ''
                                     @ stringify_at (ind + 4) (snd kv)) kvs)
           @ [CHR 0x0A] @ replicate ind CHR '' '' @ ''}'')"

definition json_stringify :: "json \<Rightarrow> string" where
  "json_stringify v = stringify_at 0 v"

definition json_ws :: "char \<Rightarrow> bool" where
  "json_ws c = (c = CHR 0x20 \<or> c = CHR 0x09 \<or> c = CHR 0x0A \<or> c = CHR 0x0D)"

definition skip_ws :: "string \<Rightarrow> string" where
  "skip_ws s = dropWhile json_ws s"

fun strip_prefix :: "string \<Rightarrow> string \<Rightarrow> string option" where
  "strip_prefix [] s = Some s"
| "strip_prefix (p # ps) [] = None"
| "strip_prefix (p # ps) (c # cs) = (if p = c then strip_prefix ps cs else None)"

definition is_digit :: "char \<Rightarrow> bool" where
  "is_digit c = ((48 :: nat) \<le> of_char c \<and> of_char c \<le> (57 :: nat))"

definition digits_value :: "string \<Rightarrow> int" where
  "digits_value ds = foldl (\<lambda>a c. 10 * a + (int (of_char c) - 48)) 0 ds"

definition unescape :: "char \<Rightarrow> char option" where
  "unescape c =
     (if c = CHR 0x22 \<or> c = CHR 0x5C \<or> c = CHR ''/'' then Some c
      else if c = CHR ''b'' then Some (CHR 0x08)
      else if c = CHR ''f'' then Some (CHR 0x0C)
      else if c = CHR ''n'' then Some (CHR 0x0A)
      else if c = CHR ''r'' then Some (CHR 0x0D)
      else if c = CHR ''t'' then Some (CHR 0x09)
      else None)"

text \<open>The characters of a string literal after its opening quote, and the rest.\<close>

fun parse_chars :: "string \<Rightarrow> (string \<times> string) option" where
  "parse_chars [] = None"
| "parse_chars (c # cs) =
     (if c = CHR 0x22 then Some ([], cs)
      else if c = CHR 0x5C then
        (case cs of
           [] \<Rightarrow> None
         | x # xs \<Rightarrow>
             (case unescape x of
                None \<Rightarrow> None
              | Some y \<Rightarrow> (case parse_chars xs of None \<Rightarrow> None | Some (t, r) \<Rightarrow> Some (y # t, r))))
      else if of_char c < (32 :: nat) then None
      else (case parse_chars cs of None \<Rightarrow> None | Some (t, r) \<Rightarrow> Some (c # t, r)))"

definition parse_int :: "string \<Rightarrow> (json \<times> string) option" where
  "parse_int s =
     (let neg = (case s of [] \<Rightarrow> False | c # cs \<Rightarrow> c = CHR ''-'');
          body = (if neg then tl s else s);
          ds = takeWhile is_digit body;
          r = dropWhile is_digit body
      in if ds = [] \<or> (length ds > 1 \<and> hd ds = CHR ''0'') then None
         else if r \<noteq> [] \<and> (hd r = CHR ''.'' \<or> hd r = CHR ''e'' \<or> hd r = CHR ''E'') then None
         else Some (JNum (if neg then - digits_value ds else digits_value ds), r))"

text \<open>
  Recursive descent; the first argument bounds the nesting and the number of elements
  read, and the length of the text is enough.
\<close>

fun parse_value :: "nat \<Rightarrow> string \<Rightarrow> (json \<times> string) option"
  and parse_elements :: "nat \<Rightarrow> string \<Rightarrow> (json list \<times> string) option"
  and parse_members :: "nat \<Rightarrow> string \<Rightarrow> ((string \<times> json) list \<times> string) option" where
  "parse_value 0 s = None"
| "parse_value (Suc n) s =
     (case s of
        [] \<Rightarrow> None
      | c # cs \<Rightarrow>
          if c = CHR ''n'' then map_option (Pair JNull) (strip_prefix ''null'' s)
          else if c = CHR ''t'' then map_option (Pair (JBool True)) (strip_prefix ''true'' s)
          else if c = CHR ''f'' then map_option (Pair (JBool False)) (strip_prefix ''false'' s)
          else if c = CHR 0x22 then
            (case parse_chars cs of None \<Rightarrow> None | Some (t, r) \<Rightarrow> Some (JStr t, r))
          else if c = CHR ''['' then
            (case skip_ws cs of
               [] \<Rightarrow> None
             | x # xs \<Rightarrow>
                 if x = CHR '']'' then Some (JArr [], xs)
                 else (case parse_elements n (x # xs) of
                         None \<Rightarrow> None
                       | Some (es, r) \<Rightarrow> Some (JArr es, r)))
          else if c = CHR ''{'' then
            (case skip_ws cs of
               [] \<Rightarrow> None
             | x # xs \<Rightarrow>
                 if x = CHR ''}'' then Some (JObj [], xs)
                 else (case parse_members n (x # xs) of
                         None \<Rightarrow> None
                       | Some (kvs, r) \<Rightarrow> Some (JObj kvs, r)))
          else parse_int s)"
| "parse_elements 0 s = None"
| "parse_elements (Suc n) s =
     (case parse_value n s of
        None \<Rightarrow> None
      | Some (v, r) \<Rightarrow>
          (case skip_ws r of
             [] \<Rightarrow> None
           | x # xs \<Rightarrow>
               if x = CHR '']'' then Some ([v], xs)
               else if x = CHR '','' then
                 (case parse_elements n (skip_ws xs) of
                    None \<Rightarrow> None
                  | Some (vs, r') \<Rightarrow> Some (v # vs, r'))
               else None))"
| "parse_members 0 s = None"
| "parse_members (Suc n) s =
     (case s of
        [] \<Rightarrow> None
      | q # qs \<Rightarrow>
          if q \<noteq> CHR 0x22 then None
          else
            (case parse_chars qs of
               None \<Rightarrow> None
             | Some (k, r) \<Rightarrow>
                 (case skip_ws r of
                    [] \<Rightarrow> None
                  | y # ys \<Rightarrow>
                      if y \<noteq> CHR '':'' then None
                      else
                        (case parse_value n (skip_ws ys) of
                           None \<Rightarrow> None
                         | Some (v, r') \<Rightarrow>
                             (case skip_ws r' of
                                [] \<Rightarrow> None
                              | x # xs \<Rightarrow>
                                  if x = CHR ''}'' then Some ([(k, v)], xs)
                                  else if x = CHR '','' then
                                    (case parse_members n (skip_ws xs) of
                                       None \<Rightarrow> None
                                     | Some (kvs, r'') \<Rightarrow> Some ((k, v) # kvs, r''))
                                  else None)))))"

definition json_parse :: "string \<Rightarrow> json option" where
  "json_parse s =
     (case parse_value (Suc (length s)) (skip_ws s) of
        None \<Rightarrow> None
      | Some (v, r) \<Rightarrow> if skip_ws r = [] then Some v else None)"

text \<open>\<open>path.dirname\<close> and \<open>path.join\<close> on POSIX paths without a trailing or doubled slash.\<close>

definition posix_dirname :: "string \<Rightarrow> string" where
  "posix_dirname p =
     (let d = rev (drop 1 (dropWhile (\<lambda>c. c \<noteq> CHR ''/'') (rev p)))
      in if d \<noteq> [] then d else if CHR ''/'' \<in> set p then ''/'' else ''.'')"

definition posix_join :: "string \<Rightarrow> string \<Rightarrow> string" where
  "posix_join a b = a @ ''/'' @ b"

text \<open>
  A remote service that finds \<open>a.com\<close> available and every other domain taken, and a
  session that opens and closes without failure.
\<close>

definition demo_env :: env where
  "demo_env =
     \<lparr>JSON_parse = json_parse,
      JSON_stringify = json_stringify,
      path_dirname = posix_dirname,
      path_join = posix_join,
      projectRoot = ''/app'',
      session_create = (\<lambda>n. Inr ()),
      probe = (\<lambda>d. if d = ''a.com'' then Inr Available else Inr Unavailable),
      session_close = (\<lambda>n. Inr ())\<rparr>"

subsection \<open>Observing a run\<close>

text \<open>
  The events a computation added to the trace, the delays among them, and whether an
  event is a step of the program that writes, replaces or removes the file at a path
  (what other actors do is an \<open>EvExt\<close> event and not a step of the program).
\<close>

definition emitted :: "world \<Rightarrow> world \<Rightarrow> event list" where
  "emitted w w' = drop (length (trace w)) (trace w')"

fun sleeps :: "event list \<Rightarrow> nat list" where
  "sleeps [] = []"
| "sleeps (EvSleep ms # es) = ms # sleeps es"
| "sleeps (e # es) = sleeps es"

fun mutates :: "string \<Rightarrow> event \<Rightarrow> bool" where
  "mutates p (EvWrite q c) = (q = p)"
| "mutates p (EvCopy src dst c) = (dst = p)"
| "mutates p (EvRename src dst c) = (src = p \<or> dst = p)"
| "mutates p e = False"

text \<open>What one call of \<open>safelyWriteResultsFile\<close> on path \<open>p\<close> with content \<open>s\<close> may emit.\<close>

fun save_event :: "string \<Rightarrow> string \<Rightarrow> event \<Rightarrow> bool" where
  "save_event p s (EvMkdir d) = True"
| "save_event p s (EvCopy src dst c) = (src = p \<and> dst = p @ ''.backup'')"
| "save_event p s (EvWrite q c) = (q = p @ ''.tmp'')"
| "save_event p s (EvRename src dst c) = (src = p @ ''.tmp'' \<and> dst = p \<and> c = s)"
| "save_event p s (EvSleep ms) = True"
| "save_event p s (EvExt x) = True"
| "save_event p s (EvLog m) = (m = WriteFailed)"
| "save_event p s e = False"

text \<open>What one call of \<open>safelyReadResultsFile\<close> on path \<open>p\<close> may emit.\<close>

fun load_event :: "string \<Rightarrow> event \<Rightarrow> bool" where
  "load_event p (EvMkdir d) = True"
| "load_event p (EvRead q c) = (q = p)"
| "load_event p (EvWrite q c) = (q = p)"
| "load_event p (EvCopy src dst c) = (src = p)"
| "load_event p (EvSleep ms) = (ms = 1000)"
| "load_event p (EvExt x) = True"
| "load_event p (EvLog m) = (m = ReadFailed)"
| "load_event p e = False"

fun is_rename :: "event \<Rightarrow> bool" where
  "is_rename (EvRename src dst c) = True"
| "is_rename e = False"

fun is_ext :: "event \<Rightarrow> bool" where
  "is_ext (EvExt x) = True"
| "is_ext e = False"

text \<open>What an attempt of \<open>safelyWriteResultsFile\<close> emits before its rename.\<close>

fun write_quiet :: "string \<Rightarrow> event \<Rightarrow> bool" where
  "write_quiet p (EvMkdir d) = True"
| "write_quiet p (EvCopy src dst c) = (src = p \<and> dst = p @ ''.backup'')"
| "write_quiet p (EvWrite q c) = (q = p @ ''.tmp'')"
| "write_quiet p e = False"

text \<open>The retry loop of \<open>safelyWriteResultsFile\<close> after \<open>k\<close> failed attempts, and at its end;
  \<open>delay i\<close> is the wait after the \<open>i\<close>-th failed attempt.\<close>

definition save_retrying ::
  "string \<Rightarrow> string \<Rightarrow> (nat \<Rightarrow> nat) \<Rightarrow> nat \<Rightarrow> event list \<Rightarrow> bool" where
  "save_retrying p s delay k evs =
     (list_all (save_event p s) evs \<and> list_all (\<lambda>e. \<not> mutates p e) evs
      \<and> sleeps evs = map delay [1..<Suc k])"

definition save_done ::
  "string \<Rightarrow> string \<Rightarrow> (nat \<Rightarrow> nat) \<Rightarrow> nat \<Rightarrow> bool \<Rightarrow> event list \<Rightarrow> world \<Rightarrow> bool" where
  "save_done p s delay maxRetries b evs w =
     (list_all (save_event p s) evs
      \<and> (\<exists>k \<le> maxRetries. sleeps evs = map delay [1..<Suc k] \<and> b = (k < maxRetries))
      \<and> (b \<longrightarrow> files w p = Some s
              \<and> (\<exists>pre. evs = pre @ [EvWrite (p @ ''.tmp'') s, EvRename (p @ ''.tmp'') p s]
                       \<and> list_all (\<lambda>e. \<not> mutates p e) pre))
      \<and> (\<not> b \<longrightarrow> list_all (\<lambda>e. \<not> mutates p e) evs))"

text \<open>
  What an attempt of \<open>safelyReadResultsFile\<close> emits, where its value comes from (the empty
  array, or the parse of a text it read from the file), and its retry loop after \<open>k\<close>
  failed attempts and at its end.
\<close>

fun read_quiet :: "string \<Rightarrow> event \<Rightarrow> bool" where
  "read_quiet p (EvMkdir d) = True"
| "read_quiet p (EvRead q c) = (q = p)"
| "read_quiet p (EvWrite q c) = (q = p)"
| "read_quiet p (EvCopy src dst c) = (src = p)"
| "read_quiet p e = False"

definition loaded_from :: "env \<Rightarrow> string \<Rightarrow> json \<Rightarrow> event list \<Rightarrow> bool" where
  "loaded_from E p v evs =
     (js_length v = Inr () \<and>
      (v = JArr [] \<or> (\<exists>c. EvRead p c \<in> set evs \<and> trim c \<noteq> [] \<and> JSON_parse E c = Some v)))"

definition load_retrying :: "string \<Rightarrow> nat \<Rightarrow> event list \<Rightarrow> bool" where
  "load_retrying p k evs = (list_all (load_event p) evs \<and> sleeps evs = replicate k 1000)"

definition load_done :: "env \<Rightarrow> string \<Rightarrow> nat \<Rightarrow> json \<Rightarrow> event list \<Rightarrow> bool" where
  "load_done E p maxRetries v evs =
     (list_all (load_event p) evs \<and> loaded_from E p v evs
      \<and> (\<exists>k \<le> maxRetries. sleeps evs = replicate k 1000 \<and> (k = maxRetries \<longrightarrow> v = JArr [])))"

text \<open>
  The value of a key of a record (\<open>None\<close> when it has none), and whether a record has
  status \<open>error\<close>.
\<close>

definition prop_of :: "string \<Rightarrow> json \<Rightarrow> json option" where
  "prop_of k e = (case js_prop k e of Inl x \<Rightarrow> None | Inr p \<Rightarrow> p)"

definition is_error_record :: "json \<Rightarrow> bool" where
  "is_error_record e = (prop_of ''status'' e = Some (JStr ''error''))"

text \<open>
  The domains whose iteration a worker began: every iteration logs first, either that it
  skips the domain or that it checks it.
\<close>

fun started :: "event \<Rightarrow> string option" where
  "started (EvLog (Skipping n d)) = Some d"
| "started (EvLog (Checking n d)) = Some d"
| "started e = None"

definition starts :: "event list \<Rightarrow> string list" where
  "starts evs = List.map_filter started evs"

text \<open>
  The record sequence that \<open>safelyReadResultsFile\<close> makes of the text of a store file; a
  run all of whose reads of the store found no two records with one domain; and a run
  every rename of which onto the store carried the serialization of a sequence without
  two records with one domain.
\<close>

definition store_view :: "env \<Rightarrow> string \<Rightarrow> json" where
  "store_view E c =
     (if trim c = [] then JArr []
      else (case JSON_parse E c of
              None \<Rightarrow> JArr []
            | Some v \<Rightarrow> if js_length v = Inr () then v else JArr []))"

definition good_reads :: "env \<Rightarrow> string \<Rightarrow> event list \<Rightarrow> bool" where
  "good_reads E p evs = (\<forall>c. EvRead p c \<in> set evs \<longrightarrow> unique_domains (store_view E c))"

definition good_renames :: "env \<Rightarrow> string \<Rightarrow> event list \<Rightarrow> bool" where
  "good_renames E p evs =
     (\<forall>src c. EvRename src p c \<in> set evs \<longrightarrow> (\<exists>v. c = JSON_stringify E v \<and> unique_domains v))"

text \<open>
  A run every rename of which onto the store carried a sequence it had read from the
  store (or the empty sequence) with one record for the domain \<open>d\<close> appended, \<open>d\<close> being
  absent from the sequence read; and a run every rename of which carried a sequence it
  had read without its records of status \<open>error\<close>.
\<close>

definition read_before :: "env \<Rightarrow> string \<Rightarrow> json list \<Rightarrow> event list \<Rightarrow> bool" where
  "read_before E p es evs =
     (JNull \<notin> set es \<and>
      (es = [] \<or> (\<exists>c. EvRead p c \<in> set evs \<and> trim c \<noteq> [] \<and> JSON_parse E c = Some (JArr es))))"

definition appended :: "env \<Rightarrow> string \<Rightarrow> string \<Rightarrow> event list \<Rightarrow> bool" where
  "appended E p d evs =
     (\<forall>src c. EvRename src p c \<in> set evs \<longrightarrow>
        (\<exists>es st. c = JSON_stringify E (JArr (es @ [DomainEntry d st]))
            \<and> Some (JStr d) \<notin> set (map (prop_of ''domain'') es)
            \<and> read_before E p es evs))"

definition filtered :: "env \<Rightarrow> string \<Rightarrow> event list \<Rightarrow> bool" where
  "filtered E p evs =
     (\<forall>src c. EvRename src p c \<in> set evs \<longrightarrow>
        (\<exists>es. c = JSON_stringify E (JArr (filter (\<lambda>e. \<not> is_error_record e) es))
            \<and> read_before E p es evs))"

text \<open>
  A run every rename of which onto the store carried a sequence it had read from the
  store (or the empty sequence) with the record \<open>{ domain: d, status: 'error' }\<close>
  appended, \<open>d\<close> being absent from the sequence read.
\<close>

definition error_appended :: "env \<Rightarrow> string \<Rightarrow> string \<Rightarrow> event list \<Rightarrow> bool" where
  "error_appended E p d evs =
     (\<forall>src c. EvRename src p c \<in> set evs \<longrightarrow>
        (\<exists>es. c = JSON_stringify E
                     (JArr (es @ [JObj [(''domain'', JStr d), (''status'', JStr ''error'')]]))
            \<and> Some (JStr d) \<notin> set (map (prop_of ''domain'') es)
            \<and> read_before E p es evs))"






text \<open>The number of indices below \<open>n\<close> that are \<open>j\<close> modulo \<open>k\<close>.\<close>

definition share :: "nat \<Rightarrow> nat \<Rightarrow> nat \<Rightarrow> nat" where
  "share k j n = n div k + (if j < n mod k then 1 else 0)"

text \<open>
  Hoare triples with a normal and an exceptional postcondition: from a state that
  satisfies \<open>P\<close>, the computation ends in a state that satisfies \<open>Q\<close> of its value, or
  throws in a state that satisfies \<open>X\<close> of the exception.
\<close>

definition triple ::
  "('s \<Rightarrow> bool) \<Rightarrow> ('s, 'a) io \<Rightarrow> ('a \<Rightarrow> 's \<Rightarrow> bool) \<Rightarrow> (exn \<Rightarrow> 's \<Rightarrow> bool) \<Rightarrow> bool" where
  "triple P m Q X =
     (\<forall>s r s'. P s \<longrightarrow> m s = (r, s') \<longrightarrow> (case r of Inl e \<Rightarrow> X e s' | Inr x \<Rightarrow> Q x s'))"

subsection \<open>Concrete inputs\<close>

definition seven_domains :: "string list" where
  "seven_domains = [''a.com'', ''b.com'', ''c.com'', ''d.com'', ''e.com'', ''f.com'', ''g.com'']"

definition store_path :: string where
  "store_path = ''/app/output/domain.json''"

text \<open>A world whose store file holds the given text, with no fault and no other actor.\<close>

definition store_world :: "string \<Rightarrow> world" where
  "store_world c =
     \<lparr>files = [store_path \<mapsto> c], dirs = {''/app'', ''/app/output''}, now = 1000,
      faults = [], pending = [], trace = []\<rparr>"

text \<open>A world without a store file.\<close>

definition fresh_world :: world where
  "fresh_world =
     \<lparr>files = Map.empty, dirs = {''/app''}, now = 1000, faults = [], pending = [], trace = []\<rparr>"

text \<open>
  A world with the input file \<open>a.com\<close>, \<open>b.com\<close>, \<open>a.com\<close> and no store; a remote
  service whose probe of every domain but \<open>a.com\<close> fails; and one whose sessions
  cannot be created.
\<close>

definition domains_path :: string where
  "domains_path = ''/app/input/domains.txt''"

definition input_world :: world where
  "input_world =
     \<lparr>files = [domains_path \<mapsto> ''a.com'' @ [CHR 0x0A] @ ''b.com'' @ [CHR 0x0A] @ ''a.com'' @ [CHR 0x0A]],
      dirs = {''/app'', ''/app/input''}, now = 1000, faults = [], pending = [], trace = []\<rparr>"

definition failing_probe_env :: env where
  "failing_probe_env =
     demo_env\<lparr>probe := (\<lambda>d. if d = ''a.com'' then Inr Available else Inl RemoteError)\<rparr>"

definition no_session_env :: env where
  "no_session_env = demo_env\<lparr>session_create := (\<lambda>n. Inl RemoteError)\<rparr>"

text \<open>A store with a resolved record and a record with status \<open>error\<close>.\<close>

definition store_with_error :: "json list" where
  "store_with_error = [DomainEntry ''a.com'' Available, DomainEntry ''b.com'' Error]"

text \<open>
  The variables of a worker that has loaded an empty store, and of one that has loaded a
  store with a record for \<open>a.com\<close>.
\<close>

definition empty_locals :: locals where
  "empty_locals = \<lparr>stagehand = True, currentResults = JArr [], checkedDomainsSet = {}\<rparr>"

definition a_locals :: locals where
  "a_locals =
     \<lparr>stagehand = True, currentResults = JArr [DomainEntry ''a.com'' Available],
      checkedDomainsSet = {Some (JStr ''a.com'')}\<rparr>"

text \<open>
  A world in which another actor writes a record for \<open>b.com\<close> into the store right
  after the worker has read it for the first time.
\<close>

definition racing_world :: world where
  "racing_world =
     (store_world ''[]'')\<lparr>pending :=
        [ExtNone, ExtNone,
         ExtWrite store_path (json_stringify (JArr [DomainEntry ''b.com'' Available]))]\<rparr>"

text \<open>
  A world in which another actor overwrites the store with \<open>[null]\<close> while the worker
  probes its first domain, and repairs it right after the worker has read it.
\<close>

definition corrupting_world :: world where
  "corrupting_world =
     (store_world ''[]'')\<lparr>pending :=
        [ExtWrite store_path ''[null]'', ExtNone, ExtWrite store_path ''[]'']\<rparr>"



text \<open>A world whose store file holds one record, for \<open>a.com\<close>, written on one line.\<close>

definition one_record_text :: string where
  "one_record_text = ''[{\"domain\": \"a.com\", \"status\": \"available\"}]''"

definition one_record_world :: world where
  "one_record_world = store_world one_record_text"

text \<open>
  A world whose store has a record for \<open>a.com\<close>, and one whose store has a resolved record
  and a record with status \<open>error\<close>.
\<close>

definition a_world :: world where
  "a_world = store_world (json_stringify (JArr [DomainEntry ''a.com'' Available]))"

definition error_world :: world where
  "error_world = store_world (json_stringify (JArr store_with_error))"

section \<open>Properties of the batch partitioner\<close>

lemma length_distribute: "length (distribute n index ds batches) = length batches"
  by (induction ds arbitrary: index batches) auto

lemma distribute_nth:
  "0 < n \<Longrightarrow> length batches = n \<Longrightarrow> j < n \<Longrightarrow>
   distribute n index ds batches ! j =
     batches ! j @ map (\<lambda>m. ds ! m) (filter (\<lambda>m. (index + m) mod n = j) [0..<length ds])"
proof (induction ds arbitrary: index batches)
  case Nil
  then show ?case by simp
next
  case (Cons d ds)
  have split: "[0..<length (d # ds)] = 0 # map Suc [0..<length ds]"
    by (simp add: upt_conv_Cons map_Suc_upt del: upt_Suc)
  show ?case
    using Cons.prems
      Cons.IH[of "batches[index mod n := batches ! (index mod n) @ [d]]" "index + 1"]
    apply (simp only: distribute.simps split)
    apply (auto simp: filter_map o_def nth_list_update)
    done
qed

lemma length_domainBatches: "length (domainBatches ds) = numberOfSessions ds"
  by (simp add: domainBatches_def length_distribute)

lemma domainBatches_column:
  assumes "j < numberOfSessions ds"
  shows "domainBatches ds ! j =
         map (\<lambda>m. ds ! m) (filter (\<lambda>m. m mod numberOfSessions ds = j) [0..<length ds])"
proof -
  have k: "0 < numberOfSessions ds" using assms by simp
  show ?thesis
    unfolding domainBatches_def
    using distribute_nth[OF k _ assms, of "replicate (numberOfSessions ds) []" 0 ds] assms
    by simp
qed

lemma share_Suc:
  assumes "0 < k" "j < k"
  shows "share k j (Suc n) = share k j n + (if n mod k = j then 1 else 0)"
  using assms by (auto simp: share_def div_Suc mod_Suc)

lemma share_hit:
  assumes "n mod k = j"
  shows "n = share k j n * k + j"
  using assms by (auto simp: share_def)

lemma column_indices:
  assumes "0 < k" "j < k"
  shows "filter (\<lambda>m. m mod k = j) [0..<n] = map (\<lambda>q. q * k + j) [0..<share k j n]"
proof (induction n)
  case 0
  then show ?case by (simp add: share_def)
next
  case (Suc n)
  show ?case
  proof (cases "n mod k = j")
    case True
    then show ?thesis using Suc share_Suc[OF assms, of n] share_hit[OF True] by simp
  next
    case False
    then show ?thesis using Suc share_Suc[OF assms, of n] by simp
  qed
qed

lemma domainBatches_nth:
  assumes "j < numberOfSessions ds"
  shows "domainBatches ds ! j =
         map (\<lambda>q. ds ! (q * numberOfSessions ds + j))
             [0..<share (numberOfSessions ds) j (length ds)]"
proof -
  have k: "0 < numberOfSessions ds" using assms by simp
  show ?thesis
    by (simp add: domainBatches_column[OF assms] column_indices[OF k assms] o_def)
qed

lemma share_less:
  assumes "0 < k" "j < k"
  shows "(i < share k j n) = (i * k + j < n)"
proof (cases "i < n div k")
  case True
  then have "Suc i \<le> n div k" by simp
  then have "Suc i * k \<le> (n div k) * k" by (rule mult_le_mono1)
  then have a: "i * k + k \<le> (n div k) * k" by simp
  have b: "(n div k) * k \<le> n" by simp
  from a b have "i * k + k \<le> n" by (rule order_trans)
  then show ?thesis using True assms by (simp add: share_def)
next
  case False
  show ?thesis
  proof (cases "i = n div k")
    case True
    have "n = k * (n div k) + n mod k" by simp
    then have "(i * k + j < n) = (j < n mod k)"
      using True by (metis mult.commute nat_add_left_cancel_less)
    then show ?thesis using True by (simp add: share_def)
  next
    case ne: False
    then have "Suc (n div k) \<le> i" using False by simp
    then have "Suc (n div k) * k \<le> i * k" by (rule mult_le_mono1)
    then have a: "k + (n div k) * k \<le> i * k" by simp
    have b: "n < k + (n div k) * k" using assms(1) by (rule dividend_less_div_times)
    from b a have "n < i * k" by (rule less_le_trans)
    then show ?thesis using False ne by (simp add: share_def)
  qed
qed

lemma filter_less_upt: "filter (\<lambda>j. j < m) [0..<k] = [0..<min k m]"
  by (induction k) (auto simp: min_def not_less_eq_eq)

lemma take_drop_as_map:
  "take k (drop d ds) = map (\<lambda>j. ds ! (d + j)) [0..<min k (length ds - d)]"
  by (rule nth_equalityI) auto

lemma chunk_row:
  assumes "0 < k"
  shows "map (\<lambda>b. b ! i) (filter (\<lambda>b. i < length b)
            (map (\<lambda>j. map (\<lambda>q. ds ! (q * k + j)) [0..<share k j (length ds)]) [0..<k]))
         = take k (drop (i * k) ds)"
proof -
  have sel: "filter (\<lambda>j. i < share k j (length ds)) [0..<k] = [0..<min k (length ds - i * k)]"
  proof -
    have "filter (\<lambda>j. i < share k j (length ds)) [0..<k]
          = filter (\<lambda>j. j < length ds - i * k) [0..<k]"
      by (rule filter_cong) (auto simp: share_less[OF assms])
    then show ?thesis by (simp add: filter_less_upt)
  qed
  have "map (\<lambda>b. b ! i) (filter (\<lambda>b. i < length b)
            (map (\<lambda>j. map (\<lambda>q. ds ! (q * k + j)) [0..<share k j (length ds)]) [0..<k]))
        = map (\<lambda>j. ds ! (i * k + j)) (filter (\<lambda>j. i < share k j (length ds)) [0..<k])"
    by (simp add: filter_map o_def)
  then show ?thesis by (simp add: sel take_drop_as_map)
qed

lemma concat_chunks:
  "concat (map (\<lambda>i. take k (drop (i * k) ds)) [0..<r]) = take (r * k) ds"
proof (induction r)
  case 0
  then show ?case by simp
next
  case (Suc r)
  have "take (r * k + k) ds = take (r * k) ds @ take k (drop (r * k) ds)"
    by (rule take_add)
  then show ?case using Suc by (simp add: add.commute)
qed

lemma domainBatches_as_map:
  "domainBatches ds =
     map (\<lambda>j. map (\<lambda>q. ds ! (q * numberOfSessions ds + j))
                 [0..<share (numberOfSessions ds) j (length ds)])
         [0..<numberOfSessions ds]"
proof (rule nth_equalityI)
  show "length (domainBatches ds) =
        length (map (\<lambda>j. map (\<lambda>q. ds ! (q * numberOfSessions ds + j))
                              [0..<share (numberOfSessions ds) j (length ds)])
                    [0..<numberOfSessions ds])"
    by (simp add: length_domainBatches)
next
  fix i assume "i < length (domainBatches ds)"
  then have "i < numberOfSessions ds" by (simp add: length_domainBatches)
  then show "domainBatches ds ! i =
             map (\<lambda>j. map (\<lambda>q. ds ! (q * numberOfSessions ds + j))
                           [0..<share (numberOfSessions ds) j (length ds)])
                 [0..<numberOfSessions ds] ! i"
    by (simp add: domainBatches_nth)
qed

lemma share_antimono: "i \<le> j \<Longrightarrow> share k j n \<le> share k i n"
  by (auto simp: share_def)

lemma sorted_lengths_domainBatches: "sorted (rev (map length (domainBatches ds)))"
proof -
  have "sorted_wrt (\<lambda>x y. y \<le> x) (map length (domainBatches ds))"
    by (subst domainBatches_as_map)
       (auto simp: sorted_wrt_map sorted_wrt_iff_nth_less o_def intro: share_antimono)
  then show ?thesis by (simp add: sorted_wrt_rev)
qed

lemma transpose_domainBatches:
  assumes "ds \<noteq> []"
  shows "transpose (domainBatches ds) =
         map (\<lambda>i. take (numberOfSessions ds) (drop (i * numberOfSessions ds) ds))
             [0..<share (numberOfSessions ds) 0 (length ds)]"
proof -
  let ?k = "numberOfSessions ds"
  have k: "0 < ?k" using assms by (simp add: numberOfSessions_def)
  have ne: "domainBatches ds \<noteq> []"
    using k length_domainBatches[of ds] by auto
  have len: "length (transpose (domainBatches ds)) = share ?k 0 (length ds)"
    using length_transpose_sorted[OF sorted_lengths_domainBatches, of ds] ne k
    by (simp add: domainBatches_nth)
  show ?thesis
  proof (rule nth_equalityI)
    show "length (transpose (domainBatches ds)) =
          length (map (\<lambda>i. take ?k (drop (i * ?k) ds)) [0..<share ?k 0 (length ds)])"
      by (simp add: len)
  next
    fix i assume i: "i < length (transpose (domainBatches ds))"
    have "transpose (domainBatches ds) ! i =
          map (\<lambda>b. b ! i) (filter (\<lambda>b. i < length b) (domainBatches ds))"
      using i by (rule nth_transpose)
    also have "\<dots> = take ?k (drop (i * ?k) ds)"
      by (subst domainBatches_as_map) (rule chunk_row[OF k])
    finally show "transpose (domainBatches ds) ! i =
          map (\<lambda>i. take ?k (drop (i * ?k) ds)) [0..<share ?k 0 (length ds)] ! i"
      using i len by simp
  qed
qed

lemma share_covers: "0 < k \<Longrightarrow> n \<le> share k 0 n * k"
  using share_less[of k 0 "share k 0 n" n] by simp

lemma round_robin_reconstructs: "concat (transpose (domainBatches ds)) = ds"
proof (cases "ds = []")
  case True
  then show ?thesis by (simp add: domainBatches_def numberOfSessions_def)
next
  case False
  then have k: "0 < numberOfSessions ds" by (simp add: numberOfSessions_def)
  show ?thesis
    using share_covers[OF k, of "length ds"]
    by (simp add: transpose_domainBatches[OF False] concat_chunks)
qed

lemma batch_sizes:
  assumes "i < numberOfSessions ds" "j < numberOfSessions ds"
  shows "length (domainBatches ds ! i) \<le> length (domainBatches ds ! j) + 1"
  using assms by (simp add: domainBatches_nth share_def)

lemma batches_disjoint:
  assumes "distinct ds" "i < numberOfSessions ds" "j < numberOfSessions ds" "i \<noteq> j"
  shows "set (domainBatches ds ! i) \<inter> set (domainBatches ds ! j) = {}"
proof -
  let ?k = "numberOfSessions ds"
  have k: "0 < ?k" using assms(2) by simp
  {
    fix x assume xi: "x \<in> set (domainBatches ds ! i)" and xj: "x \<in> set (domainBatches ds ! j)"
    from xi obtain p where p: "p < share ?k i (length ds)" "x = ds ! (p * ?k + i)"
      by (auto simp: domainBatches_nth[OF assms(2)])
    from xj obtain q where q: "q < share ?k j (length ds)" "x = ds ! (q * ?k + j)"
      by (auto simp: domainBatches_nth[OF assms(3)])
    have pi: "p * ?k + i < length ds" using p(1) share_less[OF k assms(2)] by simp
    have qj: "q * ?k + j < length ds" using q(1) share_less[OF k assms(3)] by simp
    have "p * ?k + i = q * ?k + j"
      using p(2) q(2) pi qj assms(1) by (simp add: nth_eq_iff_index_eq)
    then have "(p * ?k + i) mod ?k = (q * ?k + j) mod ?k" by simp
    then have "i = j" using assms(2,3) by simp
    then have False using assms(4) by simp
  }
  then show ?thesis by auto
qed

text \<open>
  C6.  For a non-empty sequence of unresolved domains (which \<open>run\<close> has de-duplicated),
  the partitioner makes \<open>min 3 n\<close> batches; batch \<open>j\<close> holds, in order, the domains whose
  input index is \<open>j\<close> modulo the number of batches; the sizes of two batches differ by
  at most one; two different batches share no domain; and reading the batches in
  round-robin order (the first of each batch, then the second of each, and so on)
  gives back the input.
\<close>

theorem C6_round_robin_partition:
  assumes "ds \<noteq> []" and "distinct ds"
  shows "length (domainBatches ds) = min 3 (length ds)
       \<and> (\<forall>j < min 3 (length ds).
            domainBatches ds ! j =
              map (\<lambda>i. ds ! i) (filter (\<lambda>i. i mod min 3 (length ds) = j) [0..<length ds]))
       \<and> (\<forall>i < min 3 (length ds). \<forall>j < min 3 (length ds).
            length (domainBatches ds ! i) \<le> length (domainBatches ds ! j) + 1)
       \<and> (\<forall>i < min 3 (length ds). \<forall>j < min 3 (length ds).
            i \<noteq> j \<longrightarrow> set (domainBatches ds ! i) \<inter> set (domainBatches ds ! j) = {})
       \<and> concat (transpose (domainBatches ds)) = ds"
proof -
  have k: "numberOfSessions ds = min 3 (length ds)" by (simp add: numberOfSessions_def)
  have "length (domainBatches ds) = min 3 (length ds)"
    using length_domainBatches[of ds] k by simp
  moreover have "\<forall>j < min 3 (length ds).
            domainBatches ds ! j =
              map (\<lambda>i. ds ! i) (filter (\<lambda>i. i mod min 3 (length ds) = j) [0..<length ds])"
    using domainBatches_column[of _ ds] k by simp
  moreover have "\<forall>i < min 3 (length ds). \<forall>j < min 3 (length ds).
            length (domainBatches ds ! i) \<le> length (domainBatches ds ! j) + 1"
    using batch_sizes[of _ ds] k by simp
  moreover have "\<forall>i < min 3 (length ds). \<forall>j < min 3 (length ds).
            i \<noteq> j \<longrightarrow> set (domainBatches ds ! i) \<inter> set (domainBatches ds ! j) = {}"
    using batches_disjoint[OF assms(2)] k by simp
  moreover have "concat (transpose (domainBatches ds)) = ds"
    by (rule round_robin_reconstructs)
  ultimately show ?thesis by blast
qed

theorem C6_seven_domains_witness:
  "seven_domains \<noteq> [] \<and> distinct seven_domains
   \<and> length (domainBatches seven_domains) = 3
   \<and> domainBatches seven_domains ! 0 = [''a.com'', ''d.com'', ''g.com'']
   \<and> domainBatches seven_domains ! 1 = [''b.com'', ''e.com'']
   \<and> domainBatches seven_domains ! 2 = [''c.com'', ''f.com'']
   \<and> concat (transpose (domainBatches seven_domains)) = seven_domains"
proof -
  have ne: "seven_domains \<noteq> []" by (simp add: seven_domains_def)
  have di: "distinct seven_domains" by (simp add: seven_domains_def)
  have len: "length seven_domains = 7" by (simp add: seven_domains_def)
  note c6 = C6_round_robin_partition[OF ne di, unfolded len]
  have idx: "[0..<7] = [0, 1, 2, 3, 4, 5, 6 :: nat]" by (simp add: upt_rec)
  have b0: "domainBatches seven_domains ! 0 = [''a.com'', ''d.com'', ''g.com'']"
    using c6 by (simp add: idx seven_domains_def)
  have b1: "domainBatches seven_domains ! 1 = [''b.com'', ''e.com'']"
    using c6 by (simp add: idx seven_domains_def)
  have b2: "domainBatches seven_domains ! 2 = [''c.com'', ''f.com'']"
    using c6 by (simp add: idx seven_domains_def)
  show ?thesis using ne di c6 b0 b1 b2 by simp
qed

section \<open>Reasoning about computations\<close>

lemma tripleI:
  assumes "\<And>s r s'. P s \<Longrightarrow> m s = (r, s') \<Longrightarrow> (case r of Inl e \<Rightarrow> X e s' | Inr x \<Rightarrow> Q x s')"
  shows "triple P m Q X"
  using assms unfolding triple_def by blast

lemma triple_Inr: "triple P m Q X \<Longrightarrow> P s \<Longrightarrow> m s = (Inr x, s') \<Longrightarrow> Q x s'"
  unfolding triple_def by force

lemma triple_Inl: "triple P m Q X \<Longrightarrow> P s \<Longrightarrow> m s = (Inl e, s') \<Longrightarrow> X e s'"
  unfolding triple_def by force

lemma triple_weaken: "triple P' m Q X \<Longrightarrow> (\<And>s. P s \<Longrightarrow> P' s) \<Longrightarrow> triple P m Q X"
  unfolding triple_def by blast

lemma triple_strengthen:
  "triple P m Q' X' \<Longrightarrow> (\<And>x s. Q' x s \<Longrightarrow> Q x s) \<Longrightarrow> (\<And>e s. X' e s \<Longrightarrow> X e s)
   \<Longrightarrow> triple P m Q X"
  unfolding triple_def by (fastforce split: sum.splits)

lemma triple_bind:
  assumes "\<And>x. triple (R x) (f x) Q X" and "triple P m R X"
  shows "triple P (io_bind m f) Q X"
proof (rule tripleI)
  fix s r s' assume p: "P s" and run: "io_bind m f s = (r, s')"
  obtain r1 s1 where ms: "m s = (r1, s1)" by (cases "m s")
  show "case r of Inl e \<Rightarrow> X e s' | Inr x \<Rightarrow> Q x s'"
  proof (cases r1)
    case (Inl e)
    then have "X e s1" using triple_Inl[OF assms(2) p] ms by simp
    then show ?thesis using run ms Inl by (auto simp: io_bind_def)
  next
    case (Inr x)
    then have "R x s1" using triple_Inr[OF assms(2) p] ms by simp
    moreover have "f x s1 = (r, s')" using run ms Inr by (simp add: io_bind_def)
    ultimately show ?thesis
      using triple_Inl[OF assms(1)[of x], of s1] triple_Inr[OF assms(1)[of x], of s1]
      by (cases r) auto
  qed
qed

lemma triple_catch:
  assumes "\<And>e. triple (R e) (h e) Q X" and "triple P m Q R"
  shows "triple P (io_catch m h) Q X"
proof (rule tripleI)
  fix s r s' assume p: "P s" and run: "io_catch m h s = (r, s')"
  obtain r1 s1 where ms: "m s = (r1, s1)" by (cases "m s")
  show "case r of Inl e \<Rightarrow> X e s' | Inr x \<Rightarrow> Q x s'"
  proof (cases r1)
    case (Inl e)
    then have "R e s1" using triple_Inl[OF assms(2) p] ms by simp
    moreover have "h e s1 = (r, s')" using run ms Inl by (simp add: io_catch_def)
    ultimately show ?thesis
      using triple_Inl[OF assms(1)[of e], of s1] triple_Inr[OF assms(1)[of e], of s1]
      by (cases r) auto
  next
    case (Inr x)
    then have "Q x s1" using triple_Inr[OF assms(2) p] ms by simp
    then show ?thesis using run ms Inr by (auto simp: io_catch_def)
  qed
qed

lemma triple_return: "triple (Q x) (io_return x) Q X"
  by (auto simp: triple_def io_return_def)

lemma triple_of: "triple (\<lambda>s. case r of Inl e \<Rightarrow> X e s | Inr x \<Rightarrow> Q x s) (io_of r) Q X"
  by (auto simp: triple_def io_of_def split: sum.splits)

lemma triple_when:
  "triple P m Q X \<Longrightarrow> triple (\<lambda>s. if b then P s else Q () s) (io_when b m) Q X"
  by (auto simp: triple_def io_when_def io_return_def)

lemma triple_if:
  "triple P1 m1 Q X \<Longrightarrow> triple P2 m2 Q X \<Longrightarrow>
   triple (\<lambda>s. if b then P1 s else P2 s) (if b then m1 else m2) Q X"
  by (simp add: triple_def)

lemma triple_exists: "triple (\<lambda>w. Q (existsSync p w) w) (io_exists p) Q X"
  by (auto simp: triple_def io_exists_def)

lemma triple_now: "triple (\<lambda>w. Q (now w) w) io_now Q X"
  by (auto simp: triple_def io_now_def)

lemma triple_console: "triple (\<lambda>w. Q () (emit (EvLog m) w)) (console m) Q X"
  by (auto simp: triple_def console_def)

lemma trace_emit [simp]: "trace (emit e w) = trace w @ [e]"
  and files_emit [simp]: "files (emit e w) = files w"
  and pending_emit [simp]: "pending (emit e w) = pending w"
  and now_emit [simp]: "now (emit e w) = now w"
  and dirs_emit [simp]: "dirs (emit e w) = dirs w"
  and faults_emit [simp]: "faults (emit e w) = faults w"
  by (simp_all add: emit_def)

lemma next_outcome_cases:
  obtains f where "next_outcome w = (Succeed, w\<lparr>faults := f\<rparr>)"
  | f where "next_outcome w = (Throw, w\<lparr>faults := f\<rparr>)"
  | f n where "next_outcome w = (ThrowAfter n, w\<lparr>faults := f\<rparr>)"
proof (cases "faults w")
  case Nil
  then have "next_outcome w = (Succeed, w\<lparr>faults := []\<rparr>)" by (simp add: next_outcome_def)
  then show ?thesis using that(1) by blast
next
  case (Cons x xs)
  then have "next_outcome w = (x, w\<lparr>faults := xs\<rparr>)" by (simp add: next_outcome_def)
  then show ?thesis using that by (cases x) blast+
qed

text \<open>
  The file-system calls.  Each rule asks for the postcondition in every state the call
  can end in, whatever the fault schedule says.
\<close>

lemma triple_mkdirSync:
  "triple (\<lambda>w. (\<forall>f. X IOError (w\<lparr>faults := f\<rparr>))
              \<and> (\<forall>f. Q () (emit (EvMkdir d) (w\<lparr>faults := f, dirs := insert d (dirs w)\<rparr>))))
          (mkdirSync d) Q X"
proof (rule tripleI)
  fix w r w'
  assume a: "(\<forall>f. X IOError (w\<lparr>faults := f\<rparr>))
              \<and> (\<forall>f. Q () (emit (EvMkdir d) (w\<lparr>faults := f, dirs := insert d (dirs w)\<rparr>)))"
    and run: "mkdirSync d w = (r, w')"
  show "case r of Inl e \<Rightarrow> X e w' | Inr x \<Rightarrow> Q x w'"
    using a run by (cases w rule: next_outcome_cases) (auto simp: mkdirSync_def)
qed

lemma triple_readFileSync:
  "triple (\<lambda>w. (\<forall>f. X IOError (w\<lparr>faults := f\<rparr>))
              \<and> (\<forall>f c. files w p = Some c \<longrightarrow> Q c (emit (EvRead p c) (w\<lparr>faults := f\<rparr>))))
          (readFileSync p) Q X"
proof (rule tripleI)
  fix w r w'
  assume a: "(\<forall>f. X IOError (w\<lparr>faults := f\<rparr>))
              \<and> (\<forall>f c. files w p = Some c \<longrightarrow> Q c (emit (EvRead p c) (w\<lparr>faults := f\<rparr>)))"
    and run: "readFileSync p w = (r, w')"
  show "case r of Inl e \<Rightarrow> X e w' | Inr x \<Rightarrow> Q x w'"
    using a run
    by (cases w rule: next_outcome_cases) (auto simp: readFileSync_def split: option.splits)
qed

lemma triple_writeFileSync:
  "triple (\<lambda>w. (\<forall>f. X IOError (w\<lparr>faults := f\<rparr>))
              \<and> (\<forall>f n. X IOError (emit (EvWrite p (take n c))
                                     (w\<lparr>faults := f, files := (files w)(p \<mapsto> take n c)\<rparr>)))
              \<and> (\<forall>f. Q () (emit (EvWrite p c) (w\<lparr>faults := f, files := (files w)(p \<mapsto> c)\<rparr>))))
          (writeFileSync p c) Q X"
proof (rule tripleI)
  fix w r w'
  assume a: "(\<forall>f. X IOError (w\<lparr>faults := f\<rparr>))
              \<and> (\<forall>f n. X IOError (emit (EvWrite p (take n c))
                                     (w\<lparr>faults := f, files := (files w)(p \<mapsto> take n c)\<rparr>)))
              \<and> (\<forall>f. Q () (emit (EvWrite p c) (w\<lparr>faults := f, files := (files w)(p \<mapsto> c)\<rparr>)))"
    and run: "writeFileSync p c w = (r, w')"
  show "case r of Inl e \<Rightarrow> X e w' | Inr x \<Rightarrow> Q x w'"
    using a run by (cases w rule: next_outcome_cases) (auto simp: writeFileSync_def)
qed

lemma triple_copyFileSync:
  "triple (\<lambda>w. (\<forall>f. X IOError (w\<lparr>faults := f\<rparr>))
              \<and> (\<forall>f n c. files w src = Some c \<longrightarrow>
                    X IOError (emit (EvCopy src dst (take n c))
                                (w\<lparr>faults := f, files := (files w)(dst \<mapsto> take n c)\<rparr>)))
              \<and> (\<forall>f c. files w src = Some c \<longrightarrow>
                    Q () (emit (EvCopy src dst c) (w\<lparr>faults := f, files := (files w)(dst \<mapsto> c)\<rparr>))))
          (copyFileSync src dst) Q X"
proof (rule tripleI)
  fix w r w'
  assume a: "(\<forall>f. X IOError (w\<lparr>faults := f\<rparr>))
              \<and> (\<forall>f n c. files w src = Some c \<longrightarrow>
                    X IOError (emit (EvCopy src dst (take n c))
                                (w\<lparr>faults := f, files := (files w)(dst \<mapsto> take n c)\<rparr>)))
              \<and> (\<forall>f c. files w src = Some c \<longrightarrow>
                    Q () (emit (EvCopy src dst c) (w\<lparr>faults := f, files := (files w)(dst \<mapsto> c)\<rparr>)))"
    and run: "copyFileSync src dst w = (r, w')"
  show "case r of Inl e \<Rightarrow> X e w' | Inr x \<Rightarrow> Q x w'"
    using a run
    by (cases w rule: next_outcome_cases) (auto simp: copyFileSync_def split: option.splits)
qed

lemma triple_renameSync:
  "triple (\<lambda>w. (\<forall>f. X IOError (w\<lparr>faults := f\<rparr>))
              \<and> (\<forall>f c. files w src = Some c \<longrightarrow>
                    Q () (emit (EvRename src dst c)
                           (w\<lparr>faults := f, files := ((files w)(src := None))(dst \<mapsto> c)\<rparr>))))
          (renameSync src dst) Q X"
proof (rule tripleI)
  fix w r w'
  assume a: "(\<forall>f. X IOError (w\<lparr>faults := f\<rparr>))
              \<and> (\<forall>f c. files w src = Some c \<longrightarrow>
                    Q () (emit (EvRename src dst c)
                           (w\<lparr>faults := f, files := ((files w)(src := None))(dst \<mapsto> c)\<rparr>)))"
    and run: "renameSync src dst w = (r, w')"
  show "case r of Inl e \<Rightarrow> X e w' | Inr x \<Rightarrow> Q x w'"
    using a run
    by (cases w rule: next_outcome_cases) (auto simp: renameSync_def split: option.splits)
qed

lemmas wp_rules =
  triple_return triple_of triple_when triple_if triple_exists triple_now triple_console
  triple_mkdirSync triple_readFileSync triple_writeFileSync triple_copyFileSync
  triple_renameSync

text \<open>Suspension: at most one step of another actor, which the program does not make.\<close>

lemma yield_cases:
  obtains "yield w = w"
  | x where "yield w = apply_ext x (w\<lparr>pending := tl (pending w)\<rparr>)"
proof (cases "pending w")
  case Nil
  then show ?thesis using that(1) by (simp add: yield_def)
next
  case (Cons x xs)
  then show ?thesis using that(2)[of x] by (simp add: yield_def)
qed

lemma apply_ext_trace:
  "\<exists>xs. trace (apply_ext x w) = trace w @ xs \<and> list_all is_ext xs"
  by (cases x) simp_all

lemma apply_ext_frame [simp]:
  "now (apply_ext x w) = now w" "dirs (apply_ext x w) = dirs w"
  "faults (apply_ext x w) = faults w" "pending (apply_ext x w) = pending w"
  by (cases x; simp)+

lemma yield_trace: "\<exists>xs. trace (yield w) = trace w @ xs \<and> list_all is_ext xs"
proof (cases w rule: yield_cases)
  case 1
  then show ?thesis by simp
next
  case (2 x)
  then show ?thesis using apply_ext_trace[of x "w\<lparr>pending := tl (pending w)\<rparr>"] by simp
qed

lemma yield_frame [simp]:
  "now (yield w) = now w" "dirs (yield w) = dirs w" "faults (yield w) = faults w"
  by (cases w rule: yield_cases; simp)+

lemma yield_idle [simp]: "pending w = [] \<Longrightarrow> yield w = w"
  by (simp add: yield_def)

lemma sleep_trace:
  "\<exists>xs. trace (sleep ms w) = trace w @ EvSleep ms # xs \<and> list_all is_ext xs"
  using yield_trace[of "emit (EvSleep ms) (w\<lparr>now := now w + ms\<rparr>)"]
  by (auto simp: sleep_def)

lemma triple_await:
  assumes "triple P m (\<lambda>x w. \<forall>xs w'. trace w' = trace w @ xs \<longrightarrow> list_all is_ext xs \<longrightarrow> Q x w')
                      (\<lambda>e w. \<forall>xs w'. trace w' = trace w @ xs \<longrightarrow> list_all is_ext xs \<longrightarrow> X e w')"
  shows "triple P (await m) Q X"
proof (rule tripleI)
  fix s r s' assume p: "P s" and run: "await m s = (r, s')"
  obtain r1 s1 where ms: "m s = (r1, s1)" by (cases "m s")
  then have s': "s' = yield s1" and r: "r = r1" using run by (simp_all add: await_def)
  obtain xs where xs: "trace s' = trace s1 @ xs" "list_all is_ext xs"
    using yield_trace[of s1] s' by auto
  show "case r of Inl e \<Rightarrow> X e s' | Inr x \<Rightarrow> Q x s'"
  proof (cases r1)
    case (Inl e)
    then show ?thesis using triple_Inl[OF assms p] ms xs r by auto
  next
    case (Inr x)
    then show ?thesis using triple_Inr[OF assms p] ms xs r by auto
  qed
qed

section \<open>The result store: saving\<close>

declare safelyWrite_loop.simps [simp del]
declare safelyRead_loop.simps [simp del]
declare safelyRead_loop_scraper.simps [simp del]

lemma write_attempt_triple:
  "triple (\<lambda>w. trace w = t)
    (write_attempt E p d)
    (\<lambda>b w. b \<and> (\<exists>pre. trace w = t @ pre @ [EvWrite (p @ ''.tmp'') (JSON_stringify E d),
                                             EvRename (p @ ''.tmp'') p (JSON_stringify E d)]
                      \<and> list_all (write_quiet p) pre)
            \<and> files w p = Some (JSON_stringify E d))
    (\<lambda>e w. \<exists>evs. trace w = t @ evs \<and> list_all (write_quiet p) evs)"
  unfolding write_attempt_def
  apply (rule triple_weaken)
   apply (rule triple_bind wp_rules)+
  apply (auto split: sum.splits)
  done

lemma write_quiet_save_event: "write_quiet p e \<Longrightarrow> save_event p s e \<and> \<not> is_rename e \<and> \<not> mutates p e"
  by (cases e) auto

lemma is_ext_save_event: "is_ext e \<Longrightarrow> save_event p s e \<and> \<not> is_rename e \<and> \<not> mutates p e"
  by (cases e) auto

lemma sleeps_append [simp]: "sleeps (xs @ ys) = sleeps xs @ sleeps ys"
  by (induction xs rule: sleeps.induct) auto

lemma sleeps_quiet: "list_all (write_quiet p) evs \<Longrightarrow> sleeps evs = []"
  by (induction evs rule: sleeps.induct) auto

lemma sleeps_ext: "list_all is_ext evs \<Longrightarrow> sleeps evs = []"
  by (induction evs rule: sleeps.induct) auto

lemma safelyWrite_loop_spec:
  assumes "trace w = t @ evs0" "save_retrying p (JSON_stringify E d) (\<lambda>i. 1000 * i) retries evs0"
    "retries \<le> maxRetries"
  shows "\<exists>b w' evs. safelyWrite_loop E p d maxRetries retries w = (Inr b, w')
          \<and> trace w' = t @ evs \<and> save_done p (JSON_stringify E d) (\<lambda>i. 1000 * i) maxRetries b evs w'"
  using assms
proof (induction E p d maxRetries retries w arbitrary: evs0 rule: safelyWrite_loop.induct)
  case (1 E p d maxRetries retries w)
  let ?s = "JSON_stringify E d"
  show ?case
  proof (cases "retries < maxRetries")
    case False
    then have eq: "retries = maxRetries" using "1.prems"(3) by simp
    have "safelyWrite_loop E p d maxRetries retries w = (Inr False, emit (EvLog WriteFailed) w)"
      using False by (subst safelyWrite_loop.simps) simp
    moreover have "save_done p ?s (\<lambda>i. 1000 * i) maxRetries False (evs0 @ [EvLog WriteFailed]) (emit (EvLog WriteFailed) w)"
      using "1.prems"(2) eq by (auto simp: save_done_def save_retrying_def)
    ultimately show ?thesis using "1.prems"(1) by auto
  next
    case True
    obtain r w1 where att: "write_attempt E p d w = (r, w1)" by (cases "write_attempt E p d w")
    show ?thesis
    proof (cases r)
      case (Inr b)
      from triple_Inr[OF write_attempt_triple[of "trace w" E p d], of w b w1] att Inr
      obtain pre where b: "b" and pre: "trace w1 = trace w @ pre @ [EvWrite (p @ ''.tmp'') ?s, EvRename (p @ ''.tmp'') p ?s]"
        "list_all (write_quiet p) pre" and f: "files w1 p = Some ?s"
        by auto
      have run: "safelyWrite_loop E p d maxRetries retries w = (Inr b, w1)"
        using True att Inr by (subst safelyWrite_loop.simps) simp
      have q: "list_all (save_event p ?s) pre" "list_all (\<lambda>e. \<not> mutates p e) pre" "sleeps pre = []"
        using pre(2) write_quiet_save_event[of p _ ?s] sleeps_quiet[OF pre(2)]
        by (auto simp: list_all_iff)
      have inv0: "list_all (save_event p ?s) evs0" "list_all (\<lambda>e. \<not> mutates p e) evs0"
        "sleeps evs0 = map (\<lambda>i. 1000 * i) [1..<Suc retries]"
        using "1.prems"(2) by (simp_all add: save_retrying_def)
      let ?evs = "evs0 @ pre @ [EvWrite (p @ ''.tmp'') ?s, EvRename (p @ ''.tmp'') p ?s]"
      have a: "list_all (save_event p ?s) ?evs" using inv0(1) q(1) by simp
      have c: "sleeps ?evs = map (\<lambda>i. 1000 * i) [1..<Suc retries]" using inv0(3) q(3) by simp
      have k: "\<exists>k \<le> maxRetries. sleeps ?evs = map (\<lambda>i. 1000 * i) [1..<Suc k] \<and> b = (k < maxRetries)"
        using c b True by (intro exI[of _ retries]) simp
      have e: "\<exists>pre'. ?evs = pre' @ [EvWrite (p @ ''.tmp'') ?s, EvRename (p @ ''.tmp'') p ?s]
                       \<and> list_all (\<lambda>e. \<not> mutates p e) pre'"
        using inv0(2) q(2) by (intro exI[of _ "evs0 @ pre"]) simp
      have "save_done p ?s (\<lambda>i. 1000 * i) maxRetries b ?evs w1"
        unfolding save_done_def using a k e f b by blast
      then show ?thesis using run pre(1) "1.prems"(1) by auto
    next
      case (Inl e)
      from triple_Inl[OF write_attempt_triple[of "trace w" E p d], of w e w1] att Inl
      obtain evs where evs: "trace w1 = trace w @ evs" "list_all (write_quiet p) evs" by auto
      obtain xs where xs: "trace (sleep (1000 * (retries + 1)) w1) = trace w1 @ EvSleep (1000 * (retries + 1)) # xs"
        "list_all is_ext xs"
        using sleep_trace by blast
      let ?evs1 = "evs0 @ evs @ EvSleep (1000 * (retries + 1)) # xs"
      have tr: "trace (sleep (1000 * (retries + 1)) w1) = t @ ?evs1"
        using xs(1) evs(1) "1.prems"(1) by simp
      have inv: "save_retrying p ?s (\<lambda>i. 1000 * i) (retries + 1) ?evs1"
        using "1.prems"(2) evs(2) xs(2) write_quiet_save_event[of p _ ?s] is_ext_save_event[of _ p ?s]
          sleeps_quiet[OF evs(2)] sleeps_ext[OF xs(2)]
        by (auto simp: save_retrying_def list_all_iff)
      have run: "safelyWrite_loop E p d maxRetries retries w =
                 safelyWrite_loop E p d maxRetries (retries + 1) (sleep (1000 * (retries + 1)) w1)"
        using True att Inl by (subst safelyWrite_loop.simps) simp
      show ?thesis
        using "1.IH"[OF True att[symmetric] Inl tr inv] True run by simp
    qed
  qed
qed





lemma emitted_append: "trace w' = trace w @ evs \<Longrightarrow> emitted w w' = evs"
  by (simp add: emitted_def)


text \<open>Without a failing call the first attempt succeeds.\<close>

lemma no_fault [simp]: "faults w = [] \<Longrightarrow> next_outcome w = (Succeed, w)"
  by (simp add: next_outcome_def)

lemma append_neq_self [simp]: "p @ c # cs \<noteq> p"
  by (induction p) auto




lemma save_no_fault:
  assumes "faults w = []" "js_length d = Inr ()" "files w p = Some c"
  shows "\<exists>w'. safelyWriteResultsFile E p d w = (Inr True, w')
           \<and> files w' p = Some (JSON_stringify E d) \<and> faults w' = []
           \<and> pending w' = pending w"
proof -
  have "\<exists>w'. write_attempt E p d w = (Inr True, w')
           \<and> files w' p = Some (JSON_stringify E d) \<and> faults w' = []
           \<and> pending w' = pending w"
    using assms
    by (simp add: write_attempt_def io_bind_def io_exists_def io_when_def io_return_def io_of_def
        mkdirSync_def copyFileSync_def writeFileSync_def renameSync_def existsSync_def)
  then obtain w' where a: "write_attempt E p d w = (Inr True, w')"
    and b: "files w' p = Some (JSON_stringify E d)" "faults w' = []" "pending w' = pending w"
    by blast
  have "safelyWriteResultsFile E p d w = (Inr True, w')"
    unfolding safelyWriteResultsFile_def using a by (subst safelyWrite_loop.simps) simp
  then show ?thesis using b by blast
qed







section \<open>The result store: loading\<close>

lemma read_attempt_triple:
  "triple (\<lambda>w. trace w = t)
    (read_attempt E p)
    (\<lambda>v w. \<exists>evs. trace w = t @ evs \<and> list_all (read_quiet p) evs \<and> loaded_from E p v evs)
    (\<lambda>e w. \<exists>evs. trace w = t @ evs \<and> list_all (read_quiet p) evs)"
  unfolding read_attempt_def io_parse_def loaded_from_def
  apply (rule triple_weaken)
   apply (rule triple_bind triple_catch wp_rules)+
  apply (auto split: sum.splits option.splits)
  done

lemma read_quiet_load_event: "read_quiet p e \<Longrightarrow> load_event p e"
  by (cases e) auto

lemma is_ext_load_event: "is_ext e \<Longrightarrow> load_event p e"
  by (cases e) auto

lemma sleeps_read_quiet: "list_all (read_quiet p) evs \<Longrightarrow> sleeps evs = []"
  by (induction evs rule: sleeps.induct) auto

lemma loaded_from_mono: "loaded_from E p v evs \<Longrightarrow> loaded_from E p v (xs @ evs @ ys)"
  by (auto simp: loaded_from_def)

lemma safelyRead_loop_spec:
  assumes "trace w = t @ evs0" "load_retrying p retries evs0" "retries \<le> maxRetries"
  shows "\<exists>v w' evs. safelyRead_loop E p maxRetries retries w = (Inr v, w')
          \<and> trace w' = t @ evs \<and> load_done E p maxRetries v evs"
  using assms
proof (induction E p maxRetries retries w arbitrary: evs0 rule: safelyRead_loop.induct)
  case (1 E p maxRetries retries w)
  have inv0: "list_all (load_event p) evs0" "sleeps evs0 = replicate retries 1000"
    using "1.prems"(2) by (simp_all add: load_retrying_def)
  show ?case
  proof (cases "retries < maxRetries")
    case False
    then have eq: "retries = maxRetries" using "1.prems"(3) by simp
    have run: "safelyRead_loop E p maxRetries retries w = (Inr (JArr []), emit (EvLog ReadFailed) w)"
      using False by (subst safelyRead_loop.simps) simp
    have "load_done E p maxRetries (JArr []) (evs0 @ [EvLog ReadFailed])"
      unfolding load_done_def loaded_from_def
      using inv0 eq by (intro conjI exI[of _ retries]) simp_all
    then show ?thesis using run "1.prems"(1) by simp
  next
    case True
    obtain r w1 where att: "read_attempt E p w = (r, w1)" by (cases "read_attempt E p w")
    show ?thesis
    proof (cases r)
      case (Inr v)
      from triple_Inr[OF read_attempt_triple[of "trace w" E p], of w v w1] att Inr
      obtain evs where evs: "trace w1 = trace w @ evs" "list_all (read_quiet p) evs"
        "loaded_from E p v evs"
        by auto
      have run: "safelyRead_loop E p maxRetries retries w = (Inr v, w1)"
        using True att Inr by (subst safelyRead_loop.simps) simp
      have a: "list_all (load_event p) (evs0 @ evs)"
        using inv0(1) evs(2) read_quiet_load_event[of p] by (auto simp: list_all_iff)
      have b: "loaded_from E p v (evs0 @ evs)"
        using loaded_from_mono[OF evs(3), of evs0 "[]"] by simp
      have c: "\<exists>k \<le> maxRetries. sleeps (evs0 @ evs) = replicate k 1000 \<and> (k = maxRetries \<longrightarrow> v = JArr [])"
        using inv0(2) sleeps_read_quiet[OF evs(2)] True by (intro exI[of _ retries]) simp
      have "load_done E p maxRetries v (evs0 @ evs)"
        unfolding load_done_def using a b c by blast
      then show ?thesis using run evs(1) "1.prems"(1) by simp
    next
      case (Inl e)
      from triple_Inl[OF read_attempt_triple[of "trace w" E p], of w e w1] att Inl
      obtain evs where evs: "trace w1 = trace w @ evs" "list_all (read_quiet p) evs" by auto
      obtain xs where xs: "trace (sleep 1000 w1) = trace w1 @ EvSleep 1000 # xs" "list_all is_ext xs"
        using sleep_trace by blast
      let ?evs1 = "evs0 @ evs @ EvSleep 1000 # xs"
      have tr: "trace (sleep 1000 w1) = t @ ?evs1"
        using xs(1) evs(1) "1.prems"(1) by simp
      have "sleeps ?evs1 = replicate retries 1000 @ [1000]"
        using inv0(2) sleeps_read_quiet[OF evs(2)] sleeps_ext[OF xs(2)] by simp
      then have sl: "sleeps ?evs1 = replicate (retries + 1) 1000"
        by (simp add: replicate_append_same)
      have "list_all (load_event p) ?evs1"
        using inv0(1) evs(2) xs(2) read_quiet_load_event[of p] is_ext_load_event[of _ p]
        by (auto simp: list_all_iff)
      then have inv: "load_retrying p (retries + 1) ?evs1"
        using sl by (simp add: load_retrying_def)
      have run: "safelyRead_loop E p maxRetries retries w =
                 safelyRead_loop E p maxRetries (retries + 1) (sleep 1000 w1)"
        using True att Inl by (subst safelyRead_loop.simps) simp
      show ?thesis
        using "1.IH"[OF True att[symmetric] Inl tr inv] True run by simp
    qed
  qed
qed

lemma safelyReadResultsFile_spec:
  "\<exists>v w' evs. safelyReadResultsFile E p w = (Inr v, w')
          \<and> trace w' = trace w @ evs \<and> load_done E p 3 v evs"
  using safelyRead_loop_spec[of w "trace w" "[]" p 0 3 E]
  by (simp add: safelyReadResultsFile_def load_retrying_def)

text \<open>Without a fault, the first attempt returns.\<close>

lemma first_attempt:
  "read_attempt E p w = (Inr v, w') \<Longrightarrow> safelyReadResultsFile E p w = (Inr v, w')"
  unfolding safelyReadResultsFile_def by (subst safelyRead_loop.simps) simp

lemma load_absent:
  assumes "faults w = []" "\<not> existsSync p w"
  shows "\<exists>w'. safelyReadResultsFile E p w = (Inr (JArr []), w')
           \<and> files w' p = Some (JSON_stringify E (JArr []))"
proof -
  have "\<exists>w'. read_attempt E p w = (Inr (JArr []), w')
           \<and> files w' p = Some (JSON_stringify E (JArr []))"
    using assms
    by (simp add: read_attempt_def io_bind_def io_exists_def io_when_def io_return_def
        mkdirSync_def writeFileSync_def existsSync_def)
  then show ?thesis using first_attempt by blast
qed

lemma load_blank:
  assumes "faults w = []" "files w p = Some c" "trim c = []"
  shows "safelyReadResultsFile E p w = (Inr (JArr []), emit (EvRead p c) w)"
proof -
  have "read_attempt E p w = (Inr (JArr []), emit (EvRead p c) w)"
    using assms
    by (simp add: read_attempt_def io_bind_def io_exists_def io_return_def
        readFileSync_def existsSync_def)
  then show ?thesis by (rule first_attempt)
qed

lemma load_corrupt:
  assumes "faults w = []" "files w p = Some c" "trim c \<noteq> []"
    "JSON_parse E c = None \<or> (\<exists>v. JSON_parse E c = Some v \<and> js_length v = Inl TypeError)"
  shows "\<exists>w'. safelyReadResultsFile E p w = (Inr (JArr []), w')
           \<and> files w' (p @ ''.backup.'' @ show_nat (now w)) = Some c
           \<and> files w' p = Some (JSON_stringify E (JArr []))"
proof -
  have "\<exists>w'. read_attempt E p w = (Inr (JArr []), w')
           \<and> files w' (p @ ''.backup.'' @ show_nat (now w)) = Some c
           \<and> files w' p = Some (JSON_stringify E (JArr []))"
    using assms
    by (auto simp: read_attempt_def io_bind_def io_exists_def io_return_def io_catch_def
        io_parse_def io_of_def io_now_def readFileSync_def copyFileSync_def writeFileSync_def
        existsSync_def)
  then show ?thesis using first_attempt by blast
qed

lemma load_parsed:
  assumes "faults w = []" "files w p = Some c" "trim c \<noteq> []"
    "JSON_parse E c = Some v" "js_length v = Inr ()"
  shows "safelyReadResultsFile E p w = (Inr v, emit (EvRead p c) w)"
proof -
  have "read_attempt E p w = (Inr v, emit (EvRead p c) w)"
    using assms
    by (simp add: read_attempt_def io_bind_def io_exists_def io_return_def io_catch_def
        io_parse_def io_of_def readFileSync_def existsSync_def)
  then show ?thesis by (rule first_attempt)
qed

lemma load_scraper_parsed:
  assumes "faults w = []" "files w p = Some c" "trim c \<noteq> []" "JSON_parse E c = Some v"
  shows "safelyReadResultsFile_scraper E p w = (Inr v, emit (EvRead p c) w)"
proof -
  have "read_attempt_scraper E p w = (Inr v, emit (EvRead p c) w)"
    using assms
    by (simp add: read_attempt_scraper_def io_bind_def io_exists_def io_return_def
        io_parse_def io_of_def readFileSync_def existsSync_def)
  then show ?thesis
    unfolding safelyReadResultsFile_scraper_def by (subst safelyRead_loop_scraper.simps) simp
qed

lemma js_length_cases: "js_length v = Inr () \<or> js_length v = Inl TypeError"
  by (cases v) (auto split: option.splits)

text \<open>
  C2.  \<open>safelyReadResultsFile\<close> never throws: in every world it returns a value, after at
  most 3 failed attempts, each followed by a wait of 1000 ms, and when 3 attempts have
  failed the value is the empty sequence.  When no file-system call fails: if the file
  is absent it returns the empty sequence and leaves an empty document at the path; if
  the content is empty or white space it returns the empty sequence and changes
  nothing; if the content does not parse it returns the empty sequence, leaves a copy
  of the content at the path \<open>p.backup.T\<close>, \<open>T\<close> the time, and an empty document at the path.
\<close>

theorem C2_load_degrades_to_empty:
  "(\<exists>v w'. safelyReadResultsFile E p w = (Inr v, w')
      \<and> (\<exists>k \<le> 3. sleeps (emitted w w') = replicate k 1000 \<and> (k = 3 \<longrightarrow> v = JArr [])))
   \<and> (faults w = [] \<and> \<not> existsSync p w \<longrightarrow>
        fst (safelyReadResultsFile E p w) = Inr (JArr [])
        \<and> files (snd (safelyReadResultsFile E p w)) p = Some (JSON_stringify E (JArr [])))
   \<and> (\<forall>c. faults w = [] \<and> files w p = Some c \<and> trim c = [] \<longrightarrow>
        safelyReadResultsFile E p w = (Inr (JArr []), emit (EvRead p c) w))
   \<and> (\<forall>c. faults w = [] \<and> files w p = Some c \<and> trim c \<noteq> [] \<and> JSON_parse E c = None \<longrightarrow>
        fst (safelyReadResultsFile E p w) = Inr (JArr [])
        \<and> files (snd (safelyReadResultsFile E p w)) (p @ ''.backup.'' @ show_nat (now w)) = Some c
        \<and> files (snd (safelyReadResultsFile E p w)) p = Some (JSON_stringify E (JArr [])))"
proof (intro conjI allI impI)
  obtain v w' evs where run: "safelyReadResultsFile E p w = (Inr v, w')"
    and tr: "trace w' = trace w @ evs" and fin: "load_done E p 3 v evs"
    using safelyReadResultsFile_spec[of E p w] by blast
  have em: "emitted w w' = evs" using tr by (rule emitted_append)
  have "\<exists>k \<le> 3. sleeps (emitted w w') = replicate k 1000 \<and> (k = 3 \<longrightarrow> v = JArr [])"
    using fin em by (simp add: load_done_def)
  then show "\<exists>v w'. safelyReadResultsFile E p w = (Inr v, w')
      \<and> (\<exists>k \<le> 3. sleeps (emitted w w') = replicate k 1000 \<and> (k = 3 \<longrightarrow> v = JArr []))"
    using run by blast
next
  assume a: "faults w = [] \<and> \<not> existsSync p w"
  then obtain w' where "safelyReadResultsFile E p w = (Inr (JArr []), w')"
    "files w' p = Some (JSON_stringify E (JArr []))"
    using load_absent[of w p E] by blast
  then show "fst (safelyReadResultsFile E p w) = Inr (JArr [])"
    and "files (snd (safelyReadResultsFile E p w)) p = Some (JSON_stringify E (JArr []))"
    by simp_all
next
  fix c assume "faults w = [] \<and> files w p = Some c \<and> trim c = []"
  then show "safelyReadResultsFile E p w = (Inr (JArr []), emit (EvRead p c) w)"
    using load_blank[of w p c E] by blast
next
  fix c
  assume a: "faults w = [] \<and> files w p = Some c \<and> trim c \<noteq> [] \<and> JSON_parse E c = None"
  then obtain w' where "safelyReadResultsFile E p w = (Inr (JArr []), w')"
    "files w' (p @ ''.backup.'' @ show_nat (now w)) = Some c"
    "files w' p = Some (JSON_stringify E (JArr []))"
    using load_corrupt[of w p c E] by blast
  then show "fst (safelyReadResultsFile E p w) = Inr (JArr [])"
    and "files (snd (safelyReadResultsFile E p w)) (p @ ''.backup.'' @ show_nat (now w)) = Some c"
    and "files (snd (safelyReadResultsFile E p w)) p = Some (JSON_stringify E (JArr []))"
    by simp_all
qed

theorem C2_load_witness:
  "fst (safelyReadResultsFile demo_env store_path fresh_world) = Inr (JArr [])
   \<and> files (snd (safelyReadResultsFile demo_env store_path fresh_world)) store_path = Some ''[]''
   \<and> safelyReadResultsFile demo_env store_path (store_world '' '')
       = (Inr (JArr []), emit (EvRead store_path '' '') (store_world '' ''))
   \<and> fst (safelyReadResultsFile demo_env store_path (store_world ''not json'')) = Inr (JArr [])
   \<and> files (snd (safelyReadResultsFile demo_env store_path (store_world ''not json'')))
        (store_path @ ''.backup.1000'') = Some ''not json''
   \<and> files (snd (safelyReadResultsFile demo_env store_path (store_world ''not json''))) store_path
        = Some ''[]''
   \<and> fst (safelyReadResultsFile demo_env store_path
            ((store_world ''[]'')\<lparr>faults := [Throw, Throw, Throw]\<rparr>)) = Inr (JArr [])"
proof -
  note c2 = C2_load_degrades_to_empty[of demo_env store_path]
  have e: "JSON_stringify demo_env (JArr []) = ''[]''"
    by (simp add: demo_env_def json_stringify_def)
  have f1: "faults fresh_world = [] \<and> \<not> existsSync store_path fresh_world"
    by (simp add: fresh_world_def existsSync_def store_path_def)
  have f2: "faults (store_world '' '') = [] \<and> files (store_world '' '') store_path = Some '' ''
            \<and> trim '' '' = []"
    by (simp add: store_world_def trim_def js_whitespace_def)
  have f3: "faults (store_world ''not json'') = []
            \<and> files (store_world ''not json'') store_path = Some ''not json''
            \<and> trim ''not json'' \<noteq> [] \<and> JSON_parse demo_env ''not json'' = None"
    by code_simp
  have n: "show_nat (now (store_world ''not json'')) = ''1000''"
    by code_simp
  let ?bad = "(store_world ''[]'')\<lparr>faults := [Throw, Throw, Throw]\<rparr>"
  have s3: "sleeps (emitted ?bad (snd (safelyReadResultsFile demo_env store_path ?bad)))
            = replicate 3 1000"
    by code_simp
  obtain v w' k where r: "safelyReadResultsFile demo_env store_path ?bad = (Inr v, w')"
    and k: "sleeps (emitted ?bad w') = replicate k 1000" "k = 3 \<longrightarrow> v = JArr []"
    using c2[of ?bad] by blast
  have "length (replicate k (1000::nat)) = length (replicate 3 (1000::nat))"
    using k(1) s3 r by simp
  then have "k = 3" by simp
  then have bad: "fst (safelyReadResultsFile demo_env store_path ?bad) = Inr (JArr [])"
    using k(2) r by simp
  show ?thesis
    using c2[of fresh_world] c2[of "store_world '' ''"] c2[of "store_world ''not json''"]
      f1 f2 f3 bad
    by (simp add: e n)
qed

text \<open>
  C10, as amended.  When no file-system call fails and the content of the file parses,
  the \<open>safelyReadResultsFile\<close> of \<open>scrape/scraper.ts\<close> returns the parsed value as it is
  and leaves the file alone, whatever the value.  That of the multi-session scraper
  does so when the entry count of its log line, \<open>`${results.length}`\<close>, has a string: a
  record whose status is no member of the enumeration, and a value that is no array of
  records, are handed to the caller unchanged.  When the entry count has no string, it
  treats the file as corrupt: it returns the empty sequence, leaves a copy of the
  content at \<open>p.backup.T\<close> and an empty document at the path.  The entry count of an
  array, a string, a number and a boolean has a string; that of \<open>null\<close> has none; that of
  an object has one unless the member \<open>length\<close> of the object is a value without a
  string.
\<close>

theorem C10_parsed_value_passes_through:
  "(faults w = [] \<and> files w p = Some c \<and> trim c \<noteq> [] \<and> JSON_parse E c = Some v \<longrightarrow>
      safelyReadResultsFile_scraper E p w = (Inr v, emit (EvRead p c) w)
      \<and> (js_length v = Inr () \<longrightarrow>
           safelyReadResultsFile E p w = (Inr v, emit (EvRead p c) w))
      \<and> (js_length v \<noteq> Inr () \<longrightarrow>
           fst (safelyReadResultsFile E p w) = Inr (JArr [])
           \<and> files (snd (safelyReadResultsFile E p w)) (p @ ''.backup.'' @ show_nat (now w))
             = Some c
           \<and> files (snd (safelyReadResultsFile E p w)) p = Some (JSON_stringify E (JArr []))))
   \<and> js_length (JArr es) = Inr () \<and> js_length (JStr s) = Inr ()
   \<and> js_length (JNum n) = Inr () \<and> js_length (JBool b) = Inr ()
   \<and> js_length JNull = Inl TypeError
   \<and> (js_length (JObj kvs) = Inr ())
     = (\<forall>x. map_of (rev kvs) ''length'' = Some x \<longrightarrow> \<not> to_string_throws x)"
proof (intro conjI impI)
  assume a: "faults w = [] \<and> files w p = Some c \<and> trim c \<noteq> [] \<and> JSON_parse E c = Some v"
  then show "safelyReadResultsFile_scraper E p w = (Inr v, emit (EvRead p c) w)"
    using load_scraper_parsed[of w p c E v] by blast
  {
    assume "js_length v = Inr ()"
    then show "safelyReadResultsFile E p w = (Inr v, emit (EvRead p c) w)"
      using a load_parsed[of w p c E v] by blast
  }
  {
    assume "js_length v \<noteq> Inr ()"
    then have "js_length v = Inl TypeError" using js_length_cases[of v] by blast
    then obtain w' where "safelyReadResultsFile E p w = (Inr (JArr []), w')"
      "files w' (p @ ''.backup.'' @ show_nat (now w)) = Some c"
      "files w' p = Some (JSON_stringify E (JArr []))"
      using a load_corrupt[of w p c E] by blast
    then show "fst (safelyReadResultsFile E p w) = Inr (JArr [])"
      and "files (snd (safelyReadResultsFile E p w)) (p @ ''.backup.'' @ show_nat (now w))
             = Some c"
      and "files (snd (safelyReadResultsFile E p w)) p = Some (JSON_stringify E (JArr []))"
      by simp_all
  }
next
  show "(js_length (JObj kvs) = Inr ())
     = (\<forall>x. map_of (rev kvs) ''length'' = Some x \<longrightarrow> \<not> to_string_throws x)"
    by (auto split: option.splits)
qed simp_all

theorem C10_pass_through_witness:
  "JSON_parse demo_env ''[{\"domain\": \"a.com\", \"status\": \"bogus\"}]''
       = Some (JArr [JObj [(''domain'', JStr ''a.com''), (''status'', JStr ''bogus'')]])
   \<and> safelyReadResultsFile demo_env store_path
        (store_world ''[{\"domain\": \"a.com\", \"status\": \"bogus\"}]'')
       = (Inr (JArr [JObj [(''domain'', JStr ''a.com''), (''status'', JStr ''bogus'')]]),
          emit (EvRead store_path ''[{\"domain\": \"a.com\", \"status\": \"bogus\"}]'')
               (store_world ''[{\"domain\": \"a.com\", \"status\": \"bogus\"}]''))
   \<and> safelyReadResultsFile_scraper demo_env store_path
        (store_world ''[{\"domain\": \"a.com\", \"status\": \"bogus\"}]'')
       = (Inr (JArr [JObj [(''domain'', JStr ''a.com''), (''status'', JStr ''bogus'')]]),
          emit (EvRead store_path ''[{\"domain\": \"a.com\", \"status\": \"bogus\"}]'')
               (store_world ''[{\"domain\": \"a.com\", \"status\": \"bogus\"}]''))
   \<and> JSON_parse demo_env ''{\"x\": 1}'' = Some (JObj [(''x'', JNum 1)])
   \<and> safelyReadResultsFile demo_env store_path (store_world ''{\"x\": 1}'')
       = (Inr (JObj [(''x'', JNum 1)]),
          emit (EvRead store_path ''{\"x\": 1}'') (store_world ''{\"x\": 1}''))
   \<and> JSON_parse demo_env ''{\"length\": {\"toString\": 0}}''
       = Some (JObj [(''length'', JObj [(''toString'', JNum 0)])])
   \<and> js_length (JObj [(''length'', JObj [(''toString'', JNum 0)])]) \<noteq> Inr ()
   \<and> safelyReadResultsFile_scraper demo_env store_path
        (store_world ''{\"length\": {\"toString\": 0}}'')
       = (Inr (JObj [(''length'', JObj [(''toString'', JNum 0)])]),
          emit (EvRead store_path ''{\"length\": {\"toString\": 0}}'')
               (store_world ''{\"length\": {\"toString\": 0}}''))
   \<and> fst (safelyReadResultsFile demo_env store_path
            (store_world ''{\"length\": {\"toString\": 0}}'')) = Inr (JArr [])
   \<and> files (snd (safelyReadResultsFile demo_env store_path
                   (store_world ''{\"length\": {\"toString\": 0}}'')))
        (store_path @ ''.backup.1000'') = Some ''{\"length\": {\"toString\": 0}}''
   \<and> files (snd (safelyReadResultsFile demo_env store_path
                   (store_world ''{\"length\": {\"toString\": 0}}''))) store_path = Some ''[]''"
proof -
  let ?a = "''[{\"domain\": \"a.com\", \"status\": \"bogus\"}]''"
  let ?b = "''{\"x\": 1}''"
  let ?c = "''{\"length\": {\"toString\": 0}}''"
  let ?va = "JArr [JObj [(''domain'', JStr ''a.com''), (''status'', JStr ''bogus'')]]"
  let ?vb = "JObj [(''x'', JNum 1)]"
  let ?vc = "JObj [(''length'', JObj [(''toString'', JNum 0)])]"
  have a4: "JSON_parse demo_env ?a = Some ?va" by code_simp
  have b4: "JSON_parse demo_env ?b = Some ?vb" by code_simp
  have c4: "JSON_parse demo_env ?c = Some ?vc" by code_simp
  have ta: "trim ?a \<noteq> []" by code_simp
  have tb: "trim ?b \<noteq> []" by code_simp
  have tc: "trim ?c \<noteq> []" by code_simp
  have ha: "faults (store_world ?a) = [] \<and> files (store_world ?a) store_path = Some ?a
            \<and> trim ?a \<noteq> [] \<and> JSON_parse demo_env ?a = Some ?va"
    using ta a4 by (simp add: store_world_def)
  have hb: "faults (store_world ?b) = [] \<and> files (store_world ?b) store_path = Some ?b
            \<and> trim ?b \<noteq> [] \<and> JSON_parse demo_env ?b = Some ?vb"
    using tb b4 by (simp add: store_world_def)
  have hc: "faults (store_world ?c) = [] \<and> files (store_world ?c) store_path = Some ?c
            \<and> trim ?c \<noteq> [] \<and> JSON_parse demo_env ?c = Some ?vc"
    using tc c4 by (simp add: store_world_def)
  have la: "js_length ?va = Inr ()" by simp
  have lb: "js_length ?vb = Inr ()" by simp
  have lc: "js_length ?vc \<noteq> Inr ()" by simp
  have e: "JSON_stringify demo_env (JArr []) = ''[]''"
    by (simp add: demo_env_def json_stringify_def)
  have n: "show_nat (now (store_world ?c)) = ''1000''" by code_simp
  note A = C10_parsed_value_passes_through
      [of "store_world ?a" store_path ?a demo_env ?va, THEN conjunct1, rule_format, OF ha]
  note B = C10_parsed_value_passes_through
      [of "store_world ?b" store_path ?b demo_env ?vb, THEN conjunct1, rule_format, OF hb]
  note C = C10_parsed_value_passes_through
      [of "store_world ?c" store_path ?c demo_env ?vc, THEN conjunct1, rule_format, OF hc]
  note A1 = A[THEN conjunct1] and A2 = A[THEN conjunct2, THEN conjunct1, rule_format, OF la]
    and B2 = B[THEN conjunct2, THEN conjunct1, rule_format, OF lb]
    and C1 = C[THEN conjunct1]
  have C3: "fst (safelyReadResultsFile demo_env store_path (store_world ?c)) = Inr (JArr [])
      \<and> files (snd (safelyReadResultsFile demo_env store_path (store_world ?c)))
           (store_path @ ''.backup.1000'') = Some ?c
      \<and> files (snd (safelyReadResultsFile demo_env store_path (store_world ?c))) store_path
        = Some ''[]''"
    using C[THEN conjunct2, THEN conjunct2, rule_format, OF lc] by (simp add: e n)
  show ?thesis
    by (intro conjI) (rule a4 A2 A1 b4 B2 c4 lc C1 C3[THEN conjunct1]
         C3[THEN conjunct2, THEN conjunct1] C3[THEN conjunct2, THEN conjunct2])+
qed

text \<open>
  The multi-session scraper does not return the value of the content \<open>null\<close>, nor that
  of the contents \<open>{"length": {"toString": 0}}\<close> and
  \<open>{"length": [1, [{"toString": null}]]}\<close>: it sets the file aside and returns the empty
  sequence.
\<close>

theorem C10_null_counterexample:
  "JSON_parse demo_env ''null'' = Some JNull
   \<and> fst (safelyReadResultsFile demo_env store_path (store_world ''null'')) = Inr (JArr [])
   \<and> files (snd (safelyReadResultsFile demo_env store_path (store_world ''null''))) store_path
       = Some ''[]''
   \<and> files (snd (safelyReadResultsFile demo_env store_path (store_world ''null'')))
        (store_path @ ''.backup.1000'') = Some ''null''
   \<and> JSON_parse demo_env ''{\"length\": {\"toString\": 0}}''
       = Some (JObj [(''length'', JObj [(''toString'', JNum 0)])])
   \<and> fst (safelyReadResultsFile demo_env store_path
            (store_world ''{\"length\": {\"toString\": 0}}'')) = Inr (JArr [])
   \<and> files (snd (safelyReadResultsFile demo_env store_path
                   (store_world ''{\"length\": {\"toString\": 0}}''))) store_path = Some ''[]''
   \<and> JSON_parse demo_env ''{\"length\": [1, [{\"toString\": null}]]}''
       = Some (JObj [(''length'', JArr [JNum 1, JArr [JObj [(''toString'', JNull)]]])])
   \<and> fst (safelyReadResultsFile demo_env store_path
            (store_world ''{\"length\": [1, [{\"toString\": null}]]}'')) = Inr (JArr [])
   \<and> files (snd (safelyReadResultsFile demo_env store_path
                   (store_world ''{\"length\": [1, [{\"toString\": null}]]}''))) store_path
       = Some ''[]''"
  by code_simp

section \<open>The orchestrator\<close>

lemma run_returns: "\<exists>w'. run E w = (Inr (), w')"
proof -
  obtain r w1 where rt: "run_try E w = (r, w1)" by (cases "run_try E w")
  show ?thesis
    using rt by (cases r) (simp_all add: run_def io_catch_def console_def)
qed

lemma main_exit_zero: "fst (main_exit E w) = 0"
  using run_returns[of E w] by (auto simp: main_exit_def)

lemma batch_finally_returns: "\<exists>s'. batch_finally E n s = (Inr (), s')"
proof -
  obtain l w where s: "s = (l, w)" by (cases s)
  obtain r w1 where c: "await (stagehand_close E n) w = (r, w1)"
    by (cases "await (stagehand_close E n) w")
  show ?thesis
    using s c
    by (cases r)
       (simp_all add: batch_finally_def io_bind_def get_stagehand_def io_when_def io_return_def
          io_catch_def lift_def console_def)
qed

lemma processDomainBatch_returns: "\<exists>w'. processDomainBatch E domains n p w = (Inr (), w')"
proof -
  let ?s0 = "(\<lparr>stagehand = False, currentResults = JArr [], checkedDomainsSet = {}\<rparr>, w)"
  obtain r s1 where bt: "batch_try E domains n p ?s0 = (r, s1)"
    by (cases "batch_try E domains n p ?s0")
  obtain l1 w1 where s1: "s1 = (l1, w1)" by (cases s1)
  have "\<exists>s2. io_catch (batch_try E domains n p) (\<lambda>sessionError. lift (console (SessionError n))) ?s0
             = (Inr (), s2)"
    using bt s1 by (cases r) (simp_all add: io_catch_def lift_def console_def)
  then obtain s2 where c: "io_catch (batch_try E domains n p)
      (\<lambda>sessionError. lift (console (SessionError n))) ?s0 = (Inr (), s2)" by blast
  obtain s3 where f: "batch_finally E n s2 = (Inr (), s3)"
    using batch_finally_returns by blast
  obtain l3 w3 where s3: "s3 = (l3, w3)" by (cases s3)
  show ?thesis
    using c f s3 by (simp add: processDomainBatch_def io_finally_def)
qed

lemma session_failure_contained:
  assumes "session_create E n = Inl e"
  shows "processDomainBatch E domains n p w
         = (Inr (), emit (EvLog (SessionError n)) (yield (yield (emit (EvSession n) w))))"
  using assms
  by (simp add: processDomainBatch_def io_finally_def io_catch_def batch_try_def io_bind_def lift_def
      await_def initializeBrowserbaseSession_def console_def batch_finally_def get_stagehand_def
      io_when_def io_return_def)

lemma missing_input_logged:
  assumes "faults w = []"
    and "files w (path_join E (path_join E (projectRoot E) ''input'') ''domains.txt'') = None"
    and "path_join E (path_join E (projectRoot E) ''input'') ''domains.txt''
         \<notin> insert (path_join E (projectRoot E) ''input'')
             (insert (path_join E (projectRoot E) ''output'') (dirs w))"
  shows "\<exists>w'. run E w = (Inr (), w') \<and> files w' = files w
           \<and> (\<exists>pre. emitted w w' = pre @ [EvLog DomainsFileNotFound])"
  using assms
  by (auto simp: run_def run_try_def Let_def io_catch_def io_bind_def io_exists_def io_when_def
      io_return_def mkdirSync_def existsSync_def console_def emitted_def)


text \<open>
  C8, as amended.  The process exits with status 0 in every run: \<open>run\<close> catches and logs
  whatever its body throws, so the handler that would exit with status 1 is never
  reached.  In particular a run whose workers all complete exits with status 0 even if
  domains ended with status \<open>error\<close>; a missing input file is logged, no file is touched
  and the status is 0; and a session that cannot be created is logged by its worker,
  which returns normally without probing any domain.
\<close>

theorem C8_exit_status_is_zero:
  "fst (main_exit E w) = 0
   \<and> (faults w = []
      \<and> files w (path_join E (path_join E (projectRoot E) ''input'') ''domains.txt'') = None
      \<and> path_join E (path_join E (projectRoot E) ''input'') ''domains.txt''
         \<notin> insert (path_join E (projectRoot E) ''input'')
             (insert (path_join E (projectRoot E) ''output'') (dirs w))
      \<longrightarrow> files (snd (main_exit E w)) = files w
          \<and> (\<exists>pre. emitted w (snd (main_exit E w)) = pre @ [EvLog DomainsFileNotFound]))
   \<and> (\<forall>e. session_create E n = Inl e \<longrightarrow>
         processDomainBatch E domains n p w
         = (Inr (), emit (EvLog (SessionError n)) (yield (yield (emit (EvSession n) w)))))"
proof (intro conjI impI allI)
  show "fst (main_exit E w) = 0" by (rule main_exit_zero)
next
  assume a: "faults w = []
      \<and> files w (path_join E (path_join E (projectRoot E) ''input'') ''domains.txt'') = None
      \<and> path_join E (path_join E (projectRoot E) ''input'') ''domains.txt''
         \<notin> insert (path_join E (projectRoot E) ''input'')
             (insert (path_join E (projectRoot E) ''output'') (dirs w))"
  then obtain w' where r: "run E w = (Inr (), w')" and f: "files w' = files w"
    and l: "\<exists>pre. emitted w w' = pre @ [EvLog DomainsFileNotFound]"
    using missing_input_logged[of w E] by blast
  have m: "snd (main_exit E w) = w'" using r by (simp add: main_exit_def)
  show "files (snd (main_exit E w)) = files w" using f m by simp
  show "\<exists>pre. emitted w (snd (main_exit E w)) = pre @ [EvLog DomainsFileNotFound]"
    using l m by simp
next
  fix e assume "session_create E n = Inl e"
  then show "processDomainBatch E domains n p w
         = (Inr (), emit (EvLog (SessionError n)) (yield (yield (emit (EvSession n) w))))"
    by (rule session_failure_contained)
qed

theorem C8_exit_witness:
  "fst (main_exit failing_probe_env input_world) = 0
   \<and> map_option json_parse (files (snd (main_exit failing_probe_env input_world)) store_path)
       = Some (Some (JArr [DomainEntry ''a.com'' Available, DomainEntry ''b.com'' Error]))
   \<and> files (snd (main_exit demo_env fresh_world)) = files fresh_world
   \<and> session_create no_session_env 1 = Inl RemoteError
   \<and> processDomainBatch no_session_env [''a.com''] 1 store_path fresh_world
       = (Inr (), emit (EvLog (SessionError 1)) (yield (yield (emit (EvSession 1) fresh_world))))"
proof -
  have h: "faults fresh_world = []
      \<and> files fresh_world
          (path_join demo_env (path_join demo_env (projectRoot demo_env) ''input'') ''domains.txt'')
        = None
      \<and> path_join demo_env (path_join demo_env (projectRoot demo_env) ''input'') ''domains.txt''
         \<notin> insert (path_join demo_env (projectRoot demo_env) ''input'')
             (insert (path_join demo_env (projectRoot demo_env) ''output'') (dirs fresh_world))"
    by (simp add: fresh_world_def demo_env_def posix_join_def)
  have s: "session_create no_session_env 1 = Inl RemoteError"
    by (simp add: no_session_env_def)
  have st: "map_option json_parse (files (snd (main_exit failing_probe_env input_world)) store_path)
       = Some (Some (JArr [DomainEntry ''a.com'' Available, DomainEntry ''b.com'' Error]))"
    by code_simp
  show ?thesis
    using C8_exit_status_is_zero[of failing_probe_env input_world 1 "[]" store_path]
      C8_exit_status_is_zero[of demo_env fresh_world 1 "[]" store_path]
      C8_exit_status_is_zero[of no_session_env fresh_world 1 "[''a.com'']" store_path]
      h s st
    by simp
qed

theorem C8_nonzero_exit_counterexample:
  "files fresh_world domains_path = None
   \<and> fst (main_exit demo_env fresh_world) = 0
   \<and> trace (snd (main_exit demo_env fresh_world))
       = [EvMkdir ''/app/input'', EvMkdir ''/app/output'', EvLog DomainsFileNotFound]
   \<and> session_create no_session_env 1 = Inl RemoteError
   \<and> fst (main_exit no_session_env input_world) = 0"
  by code_simp

section \<open>Reconciling the input with the store\<close>

lemma map_props_total:
  "JNull \<notin> set es \<Longrightarrow> map_props k es = Inr (map (prop_of k) es)"
proof (induction es)
  case Nil
  then show ?case by simp
next
  case (Cons e es)
  then have "e \<noteq> JNull" by auto
  then have "js_prop k e = Inr (prop_of k e)" by (cases e) (simp_all add: prop_of_def)
  then show ?case using Cons by simp
qed

lemma map_props_no_null: "map_props k es = Inr ps \<Longrightarrow> JNull \<notin> set es"
proof (induction es arbitrary: ps)
  case Nil
  then show ?case by simp
next
  case (Cons e es)
  then show ?case by (cases e) (auto split: sum.splits)
qed

lemma unique_domains_iff:
  "unique_domains (JArr es) = (JNull \<notin> set es \<and> distinct (map (prop_of ''domain'') es))"
proof (cases "JNull \<in> set es")
  case True
  then have "\<And>ps. map_props ''domain'' es \<noteq> Inr ps" using map_props_no_null by blast
  then show ?thesis using True by (auto split: sum.splits)
next
  case False
  then show ?thesis by (simp add: map_props_total)
qed

lemma filter_valid_entries_total:
  "JNull \<notin> set es \<Longrightarrow>
   filter_valid_entries es = Inr (filter (\<lambda>e. \<not> is_error_record e) es)"
proof (induction es)
  case Nil
  then show ?case by simp
next
  case (Cons e es)
  then have "e \<noteq> JNull" by auto
  then have "js_prop ''status'' e = Inr (prop_of ''status'' e)"
    by (cases e) (simp_all add: prop_of_def)
  then show ?case using Cons by (simp add: is_error_record_def)
qed

lemma error_record_retried:
  assumes "distinct (map (prop_of ''domain'') es)" "e \<in> set es" "is_error_record e"
    "prop_of ''domain'' e = Some (JStr d)"
  shows "Some (JStr d) \<notin> set (map (prop_of ''domain'') (filter (\<lambda>e. \<not> is_error_record e) es))"
proof
  assume "Some (JStr d) \<in> set (map (prop_of ''domain'') (filter (\<lambda>e. \<not> is_error_record e) es))"
  then obtain e' where e': "e' \<in> set es" "\<not> is_error_record e'"
    "prop_of ''domain'' e' = Some (JStr d)" by auto
  have "inj_on (prop_of ''domain'') (set es)" using assms(1) by (simp add: distinct_map)
  then have "e' = e" by (rule inj_onD) (simp_all add: e' assms)
  then show False using e'(2) assms(3) by simp
qed

lemma reconcile_no_fault:
  assumes "faults w = []" "pending w = []" "files w p = Some c" "trim c \<noteq> []"
    "JSON_parse E c = Some (JArr es)" "JNull \<notin> set es"
  shows "\<exists>w'. reconcile E p unique w
           = (Inr (filter (\<lambda>d. Some (JStr d) \<notin> set (map (prop_of ''domain'')
                                  (filter (\<lambda>e. \<not> is_error_record e) es))) unique), w')
         \<and> ((\<exists>e \<in> set es. is_error_record e) \<longrightarrow>
               files w' p = Some (JSON_stringify E (JArr (filter (\<lambda>e. \<not> is_error_record e) es))))
         \<and> ((\<forall>e \<in> set es. \<not> is_error_record e) \<longrightarrow> files w' = files w)"
proof -
  let ?valid = "filter (\<lambda>e. \<not> is_error_record e) es"
  let ?w1 = "emit (EvRead p c) w"
  have load: "await (safelyReadResultsFile E p) w = (Inr (JArr es), ?w1)"
    using load_parsed[OF assms(1,3,4,5)] assms(2) by (simp add: await_def)
  have fv: "filter_valid (JArr es) = Inr (JArr ?valid)"
    using filter_valid_entries_total[OF assms(6)] by simp
  have md: "map_domain (JArr ?valid) = Inr (map (prop_of ''domain'') ?valid)"
    using assms(6) by (simp add: map_props_total)
  show ?thesis
  proof (cases "\<exists>e \<in> set es. is_error_record e")
    case True
    then have less: "length ?valid < length es"
      by (auto intro!: length_filter_less)
    have "faults ?w1 = []" "files ?w1 p = Some c" using assms(1,3) by simp_all
    then obtain w2 where save: "safelyWriteResultsFile E p (JArr ?valid) ?w1 = (Inr True, w2)"
      and w2: "files w2 p = Some (JSON_stringify E (JArr ?valid))" "pending w2 = pending ?w1"
      using save_no_fault[of ?w1 "JArr ?valid" p c E] by auto
    have "pending w2 = []" using w2(2) assms(2) by simp
    then have aw: "await (safelyWriteResultsFile E p (JArr ?valid)) ?w1 = (Inr True, w2)"
      using save by (simp add: await_def)
    have "reconcile E p unique w
           = (Inr (filter (\<lambda>d. Some (JStr d) \<notin> set (map (prop_of ''domain'') ?valid)) unique), w2)"
      using load fv md less aw
      by (simp add: reconcile_def io_bind_def io_of_def io_when_def io_return_def)
    then show ?thesis using w2(1) True by blast
  next
    case False
    then have same: "?valid = es" by (simp add: filter_id_conv)
    have nl: "\<not> length ?valid < length es" using same by simp
    have r: "reconcile E p unique w
           = (Inr (filter (\<lambda>d. Some (JStr d) \<notin> set (map (prop_of ''domain'') ?valid)) unique), ?w1)"
      using load fv md nl
      by (simp add: reconcile_def io_bind_def io_of_def io_when_def io_return_def)
    have f: "files ?w1 = files w" by simp
    show ?thesis using r f False by blast
  qed
qed

text \<open>
  C5.  At the start of \<open>run\<close>, with a store that holds an array of records no two of which
  share a domain, and no failing file-system call: the records with status \<open>error\<close> are
  left out of the set of checked domains, so the domain of such a record, when it is in
  the input, is among the domains still to check; and if a record was left out, the
  remaining records are saved back to the store file.
\<close>

theorem C5_error_records_are_retried:
  assumes "faults w = []" and "pending w = []" and "files w p = Some c" and "trim c \<noteq> []"
    and "JSON_parse E c = Some (JArr es)" and "unique_domains (JArr es)"
  shows "\<exists>domainsToCheck w'. reconcile E p unique w = (Inr domainsToCheck, w')
         \<and> (\<forall>e \<in> set es. \<forall>d. is_error_record e \<and> prop_of ''domain'' e = Some (JStr d)
                \<and> d \<in> set unique \<longrightarrow> d \<in> set domainsToCheck)
         \<and> ((\<exists>e \<in> set es. is_error_record e) \<longrightarrow>
               files w' p = Some (JSON_stringify E (JArr (filter (\<lambda>e. \<not> is_error_record e) es))))"
proof -
  let ?valid = "filter (\<lambda>e. \<not> is_error_record e) es"
  let ?ds = "filter (\<lambda>d. Some (JStr d) \<notin> set (map (prop_of ''domain'') ?valid)) unique"
  have nn: "JNull \<notin> set es" and di: "distinct (map (prop_of ''domain'') es)"
    using assms(6)[unfolded unique_domains_iff] by simp_all
  obtain w' where r: "reconcile E p unique w = (Inr ?ds, w')"
    and f: "(\<exists>e \<in> set es. is_error_record e) \<longrightarrow> files w' p = Some (JSON_stringify E (JArr ?valid))"
    using reconcile_no_fault[OF assms(1-5) nn, of unique] by blast
  have "\<forall>e \<in> set es. \<forall>d. is_error_record e \<and> prop_of ''domain'' e = Some (JStr d)
                \<and> d \<in> set unique \<longrightarrow> d \<in> set ?ds"
    using error_record_retried[OF di] by auto
  then show ?thesis using r f by blast
qed


theorem C5_retry_witness:
  "faults (store_world (json_stringify (JArr store_with_error))) = []
   \<and> unique_domains (JArr store_with_error)
   \<and> fst (reconcile demo_env store_path [''a.com'', ''b.com'', ''c.com'']
            (store_world (json_stringify (JArr store_with_error))))
       = Inr [''b.com'', ''c.com'']
   \<and> files (snd (reconcile demo_env store_path [''a.com'', ''b.com'', ''c.com'']
                   (store_world (json_stringify (JArr store_with_error))))) store_path
       = Some (json_stringify (JArr [DomainEntry ''a.com'' Available]))"
proof -
  let ?w = "store_world (json_stringify (JArr store_with_error))"
  let ?u = "[''a.com'', ''b.com'', ''c.com'']"
  have h1: "faults ?w = []" by (simp add: store_world_def)
  have h2: "pending ?w = []" by (simp add: store_world_def)
  have h3: "files ?w store_path = Some (json_stringify (JArr store_with_error))"
    by (simp add: store_world_def)
  have h4: "trim (json_stringify (JArr store_with_error)) \<noteq> []" by code_simp
  have h5: "JSON_parse demo_env (json_stringify (JArr store_with_error))
            = Some (JArr store_with_error)" by code_simp
  have h6: "unique_domains (JArr store_with_error)" by code_simp
  have r: "fst (reconcile demo_env store_path ?u ?w) = Inr [''b.com'', ''c.com'']"
    by code_simp
  have e: "\<exists>e \<in> set store_with_error. is_error_record e" by code_simp
  have v: "filter (\<lambda>e. \<not> is_error_record e) store_with_error = [DomainEntry ''a.com'' Available]"
    by code_simp
  have s: "JSON_stringify demo_env = json_stringify" by (simp add: demo_env_def)
  obtain ds w' where run: "reconcile demo_env store_path ?u ?w = (Inr ds, w')"
    and f: "(\<exists>e \<in> set store_with_error. is_error_record e) \<longrightarrow>
             files w' store_path
             = Some (JSON_stringify demo_env
                      (JArr (filter (\<lambda>e. \<not> is_error_record e) store_with_error)))"
    using C5_error_records_are_retried[OF h1 h2 h3 h4 h5 h6, of ?u] by blast
  have "files (snd (reconcile demo_env store_path ?u ?w)) store_path
        = Some (json_stringify (JArr [DomainEntry ''a.com'' Available]))"
    using f e run by (simp add: v s)
  then show ?thesis using h1 h6 r by simp
qed

section \<open>The session worker\<close>

lemmas worker_defs =
  io_bind_def io_of_def io_return_def io_catch_def lift_def console_def
  get_checked_def assign_currentResults_def assign_checked_def

text \<open>The iteration for one domain, case by case.\<close>

lemma domain_try_skip:
  assumes "Some (JStr d) \<in> checkedDomainsSet l"
  shows "domain_try E n p d (l, w) = (Inr (), (l, emit (EvLog (Skipping n d)) w))"
  using assms by (simp add: domain_try_def worker_defs)

lemma domain_try_malformed:
  assumes "Some (JStr d) \<notin> checkedDomainsSet l"
    and "await (checkDomainAvailability E d) (emit (EvLog (Checking n d)) w) = (Inr st, w1)"
    and "await (safelyReadResultsFile E p) w1 = (Inr v, w2)"
    and "map_domain v = Inl e"
  shows "domain_try E n p d (l, w) = (Inl e, (l\<lparr>currentResults := v\<rparr>, w2))"
  using assms by (simp add: domain_try_def worker_defs)

lemma domain_try_discard:
  assumes "Some (JStr d) \<notin> checkedDomainsSet l"
    and "await (checkDomainAvailability E d) (emit (EvLog (Checking n d)) w) = (Inr st, w1)"
    and "await (safelyReadResultsFile E p) w1 = (Inr v, w2)"
    and "map_domain v = Inr ds" and "Some (JStr d) \<in> set ds"
  shows "domain_try E n p d (l, w)
         = (Inr (), (l\<lparr>currentResults := v, checkedDomainsSet := set ds\<rparr>,
                     emit (EvLog (SkippingSave n d)) w2))"
  using assms by (simp add: domain_try_def worker_defs)

lemma domain_try_append:
  assumes "Some (JStr d) \<notin> checkedDomainsSet l"
    and "await (checkDomainAvailability E d) (emit (EvLog (Checking n d)) w) = (Inr st, w1)"
    and "await (safelyReadResultsFile E p) w1 = (Inr (JArr es), w2)"
    and "map_domain (JArr es) = Inr ds" and "Some (JStr d) \<notin> set ds"
    and "await (safelyWriteResultsFile E p (JArr (es @ [DomainEntry d st]))) w2 = (Inr b, w3)"
  shows "domain_try E n p d (l, w)
         = (Inr (), (l\<lparr>currentResults := JArr (es @ [DomainEntry d st]),
                       checkedDomainsSet := insert (Some (JStr d)) (set ds)\<rparr>,
                     emit (EvLog (Saved n d)) w3))"
  using assms by (simp add: domain_try_def worker_defs)

lemma domain_catch_malformed:
  assumes "await (safelyReadResultsFile E p) (emit (EvLog (DomainError n d)) w) = (Inr v, w2)"
    and "map_domain v = Inl e"
  shows "domain_catch E n p d (l, w)
         = (Inr (), (l\<lparr>currentResults := v\<rparr>, emit (EvLog (SaveErrorFailed n d)) w2))"
  using assms by (simp add: domain_catch_def worker_defs)

lemma domain_catch_present:
  assumes "await (safelyReadResultsFile E p) (emit (EvLog (DomainError n d)) w) = (Inr v, w2)"
    and "map_domain v = Inr ds" and "Some (JStr d) \<in> set ds"
  shows "domain_catch E n p d (l, w)
         = (Inr (), (l\<lparr>currentResults := v, checkedDomainsSet := set ds\<rparr>, w2))"
  using assms by (simp add: domain_catch_def worker_defs)

lemma domain_catch_append:
  assumes "await (safelyReadResultsFile E p) (emit (EvLog (DomainError n d)) w) = (Inr (JArr es), w2)"
    and "map_domain (JArr es) = Inr ds" and "Some (JStr d) \<notin> set ds"
    and "await (safelyWriteResultsFile E p (JArr (es @ [DomainEntry d Error]))) w2 = (Inr b, w3)"
  shows "domain_catch E n p d (l, w)
         = (Inr (), (l\<lparr>currentResults := JArr (es @ [DomainEntry d Error]),
                       checkedDomainsSet := insert (Some (JStr d)) (set ds)\<rparr>, w3))"
  using assms by (simp add: domain_catch_def worker_defs)

text \<open>What the calls made by an iteration return and emit.\<close>

lemma await_spec:
  assumes "m w = (r, w1)"
  shows "\<exists>w' xs. await m w = (r, w') \<and> trace w' = trace w1 @ xs \<and> list_all is_ext xs"
  using assms yield_trace[of w1] by (auto simp: await_def)

lemma check_spec:
  "\<exists>st w' xs. await (checkDomainAvailability E d) w = (Inr st, w')
      \<and> trace w' = trace w @ EvProbe d # xs \<and> list_all is_ext xs"
proof -
  let ?w0 = "emit (EvProbe d) w"
  obtain xs where xs: "trace (yield ?w0) = trace ?w0 @ xs" "list_all is_ext xs"
    using yield_trace by blast
  obtain ys where ys: "trace (yield (yield ?w0)) = trace (yield ?w0) @ ys" "list_all is_ext ys"
    using yield_trace by blast
  have "\<exists>st. await (checkDomainAvailability E d) w = (Inr st, yield (yield ?w0))"
    by (cases "probe E d")
       (simp_all add: await_def checkDomainAvailability_def checkDomainAvailabilityName_def
          io_catch_def io_return_def)
  moreover have "trace (yield (yield ?w0)) = trace w @ EvProbe d # (xs @ ys)"
    using xs(1) ys(1) by simp
  moreover have "list_all is_ext (xs @ ys)" using xs(2) ys(2) by simp
  ultimately show ?thesis by blast
qed

lemma load_spec:
  "\<exists>v w' evs. await (safelyReadResultsFile E p) w = (Inr v, w')
      \<and> trace w' = trace w @ evs \<and> list_all (load_event p) evs \<and> loaded_from E p v evs"
proof -
  obtain v w1 evs where r: "safelyReadResultsFile E p w = (Inr v, w1)"
    and t: "trace w1 = trace w @ evs" and d: "load_done E p 3 v evs"
    using safelyReadResultsFile_spec by blast
  obtain w' xs where a: "await (safelyReadResultsFile E p) w = (Inr v, w')"
    and x: "trace w' = trace w1 @ xs" "list_all is_ext xs"
    using await_spec[of "safelyReadResultsFile E p" w "Inr v" w1] r by blast
  have "list_all (load_event p) (evs @ xs)"
    using d x(2) is_ext_load_event[of _ p] by (auto simp: load_done_def list_all_iff)
  moreover have "loaded_from E p v (evs @ xs)"
    using d loaded_from_mono[of E p v evs "[]" xs] by (simp add: load_done_def)
  moreover have "trace w' = trace w @ evs @ xs" using t x(1) by simp
  ultimately show ?thesis using a by blast
qed

lemma save_spec:
  "\<exists>b w' evs. await (safelyWriteResultsFile E p v) w = (Inr b, w')
      \<and> trace w' = trace w @ evs \<and> list_all (save_event p (JSON_stringify E v)) evs"
proof -
  have init: "save_retrying p (JSON_stringify E v) (\<lambda>i. 1000 * i) 0 []" by (simp add: save_retrying_def)
  obtain b w1 evs where r: "safelyWriteResultsFile E p v w = (Inr b, w1)"
    and t: "trace w1 = trace w @ evs" and d: "save_done p (JSON_stringify E v) (\<lambda>i. 1000 * i) 3 b evs w1"
    using safelyWrite_loop_spec[of w "trace w" "[]" p E v 0 3] init
    by (auto simp: safelyWriteResultsFile_def)
  obtain w' xs where a: "await (safelyWriteResultsFile E p v) w = (Inr b, w')"
    and x: "trace w' = trace w1 @ xs" "list_all is_ext xs"
    using await_spec[of "safelyWriteResultsFile E p v" w "Inr b" w1] r by blast
  have "list_all (save_event p (JSON_stringify E v)) (evs @ xs)"
    using d x(2) is_ext_save_event[of _ p] by (auto simp: save_done_def list_all_iff)
  moreover have "trace w' = trace w @ evs @ xs" using t x(1) by simp
  ultimately show ?thesis using a by blast
qed

lemma starts_append [simp]: "starts (xs @ ys) = starts xs @ starts ys"
  by (induction xs) (simp_all add: starts_def List.map_filter_simps split: option.splits)

lemma starts_Nil [simp]: "starts [] = []"
  by (simp add: starts_def List.map_filter_simps)

lemma starts_Cons [simp]:
  "starts (e # es) = (case started e of None \<Rightarrow> starts es | Some d \<Rightarrow> d # starts es)"
  by (simp add: starts_def List.map_filter_simps split: option.splits)

lemma starts_quiet:
  "list_all (\<lambda>e. started e = None) evs \<Longrightarrow> starts evs = []"
  by (induction evs) simp_all

lemma load_event_quiet: "load_event p e \<Longrightarrow> started e = None \<and> \<not> is_rename e"
  by (cases e) auto

lemma save_event_quiet: "save_event p s e \<Longrightarrow> started e = None"
  by (cases e) auto

lemma is_ext_quiet: "is_ext e \<Longrightarrow> started e = None \<and> \<not> is_rename e"
  by (cases e) auto

lemma starts_load: "list_all (load_event p) evs \<Longrightarrow> starts evs = []"
  using load_event_quiet[of p] by (intro starts_quiet) (auto simp: list_all_iff)

lemma starts_save: "list_all (save_event p s) evs \<Longrightarrow> starts evs = []"
  using save_event_quiet[of p s] by (intro starts_quiet) (auto simp: list_all_iff)

lemma starts_ext: "list_all is_ext evs \<Longrightarrow> starts evs = []"
  using is_ext_quiet by (intro starts_quiet) (auto simp: list_all_iff)

lemma no_rename_load: "list_all (load_event p) evs \<Longrightarrow> EvRename a b c \<notin> set evs"
  using load_event_quiet[of p "EvRename a b c"] by (auto simp: list_all_iff)

lemma no_rename_ext: "list_all is_ext evs \<Longrightarrow> EvRename a b c \<notin> set evs"
  using is_ext_quiet[of "EvRename a b c"] by (auto simp: list_all_iff)

lemma rename_save:
  "list_all (save_event p s) evs \<Longrightarrow> EvRename a b c \<in> set evs \<Longrightarrow> c = s"
  by (auto simp: list_all_iff)

lemma map_domain_Inr:
  assumes "map_domain v = Inr ds"
  shows "\<exists>es. v = JArr es \<and> JNull \<notin> set es \<and> ds = map (prop_of ''domain'') es"
proof (cases v)
  case (JArr es)
  then have m: "map_props ''domain'' es = Inr ds" using assms by simp
  then have n: "JNull \<notin> set es" by (rule map_props_no_null)
  then show ?thesis using m JArr by (simp add: map_props_total)
qed (use assms in simp_all)

lemma loaded_read_before:
  assumes "loaded_from E p (JArr es) evs" "JNull \<notin> set es"
  shows "read_before E p es evs"
  using assms by (auto simp: loaded_from_def read_before_def)

lemma read_before_mono: "read_before E p es evs \<Longrightarrow> read_before E p es (xs @ evs @ ys)"
  by (auto simp: read_before_def)

lemma appendedI_quiet: "(\<And>a c. EvRename a p c \<notin> set evs) \<Longrightarrow> appended E p d evs"
  by (simp add: appended_def)

lemma appended_append:
  "appended E p d xs \<Longrightarrow> appended E p d ys \<Longrightarrow> appended E p d (xs @ ys)"
  unfolding appended_def
proof (intro allI impI)
  fix src c
  assume x: "\<forall>src c. EvRename src p c \<in> set xs \<longrightarrow>
           (\<exists>es st. c = JSON_stringify E (JArr (es @ [DomainEntry d st]))
               \<and> Some (JStr d) \<notin> set (map (prop_of ''domain'') es) \<and> read_before E p es xs)"
    and y: "\<forall>src c. EvRename src p c \<in> set ys \<longrightarrow>
           (\<exists>es st. c = JSON_stringify E (JArr (es @ [DomainEntry d st]))
               \<and> Some (JStr d) \<notin> set (map (prop_of ''domain'') es) \<and> read_before E p es ys)"
    and m: "EvRename src p c \<in> set (xs @ ys)"
  from m consider "EvRename src p c \<in> set xs" | "EvRename src p c \<in> set ys" by auto
  then show "\<exists>es st. c = JSON_stringify E (JArr (es @ [DomainEntry d st]))
               \<and> Some (JStr d) \<notin> set (map (prop_of ''domain'') es)
               \<and> read_before E p es (xs @ ys)"
  proof cases
    case 1
    then obtain es st where "c = JSON_stringify E (JArr (es @ [DomainEntry d st]))"
      "Some (JStr d) \<notin> set (map (prop_of ''domain'') es)" "read_before E p es xs"
      using x by blast
    then show ?thesis using read_before_mono[of E p es xs "[]" ys] by auto
  next
    case 2
    then obtain es st where "c = JSON_stringify E (JArr (es @ [DomainEntry d st]))"
      "Some (JStr d) \<notin> set (map (prop_of ''domain'') es)" "read_before E p es ys"
      using y by blast
    then show ?thesis using read_before_mono[of E p es ys xs "[]"] by auto
  qed
qed

text \<open>What the \<open>try\<close> block of an iteration emits.\<close>

lemma domain_try_spec:
  "\<exists>r l' w' evs. domain_try E n p d (l, w) = (r, (l', w'))
      \<and> trace w' = trace w @ evs \<and> appended E p d evs \<and> starts evs = [d]"
proof (cases "Some (JStr d) \<in> checkedDomainsSet l")
  case True
  have "appended E p d [EvLog (Skipping n d)]" by (simp add: appended_def)
  then show ?thesis using domain_try_skip[OF True, of E n p w] by simp
next
  case False
  let ?w0 = "emit (EvLog (Checking n d)) w"
  obtain st w1 xs where c: "await (checkDomainAvailability E d) ?w0 = (Inr st, w1)"
    and t1: "trace w1 = trace ?w0 @ EvProbe d # xs" and x: "list_all is_ext xs"
    using check_spec by blast
  obtain v w2 evsL where ld: "await (safelyReadResultsFile E p) w1 = (Inr v, w2)"
    and t2: "trace w2 = trace w1 @ evsL" and el: "list_all (load_event p) evsL"
    and lf: "loaded_from E p v evsL"
    using load_spec by blast
  let ?pre = "EvLog (Checking n d) # EvProbe d # xs @ evsL"
  have tr2: "trace w2 = trace w @ ?pre" using t1 t2 by simp
  have st2: "starts ?pre = [d]" using starts_ext[OF x] starts_load[OF el] by simp
  have nr2: "\<And>a c. EvRename a p c \<notin> set ?pre"
    using no_rename_ext[OF x] no_rename_load[OF el] by auto
  show ?thesis
  proof (cases "map_domain v")
    case (Inl e)
    have "domain_try E n p d (l, w) = (Inl e, (l\<lparr>currentResults := v\<rparr>, w2))"
      using domain_try_malformed[OF False c ld Inl] .
    moreover have "appended E p d ?pre" using nr2 by (intro appendedI_quiet) auto
    ultimately show ?thesis using tr2 st2 by blast
  next
    case (Inr ds)
    then obtain es where v: "v = JArr es" and nn: "JNull \<notin> set es"
      and ds: "ds = map (prop_of ''domain'') es"
      using map_domain_Inr by blast
    show ?thesis
    proof (cases "Some (JStr d) \<in> set ds")
      case True
      let ?evs = "?pre @ [EvLog (SkippingSave n d)]"
      have "domain_try E n p d (l, w)
            = (Inr (), (l\<lparr>currentResults := v, checkedDomainsSet := set ds\<rparr>,
                        emit (EvLog (SkippingSave n d)) w2))"
        using domain_try_discard[OF False c ld Inr True] .
      moreover have "trace (emit (EvLog (SkippingSave n d)) w2) = trace w @ ?evs"
        using tr2 by simp
      moreover have "starts ?evs = [d]" using st2 by simp
      moreover have "appended E p d ?evs"
        using nr2 by (intro appendedI_quiet) auto
      ultimately show ?thesis by blast
    next
      case absent: False
      let ?new = "JArr (es @ [DomainEntry d st])"
      obtain b w3 evsS where sv: "await (safelyWriteResultsFile E p ?new) w2 = (Inr b, w3)"
        and t3: "trace w3 = trace w2 @ evsS"
        and es: "list_all (save_event p (JSON_stringify E ?new)) evsS"
        using save_spec by blast
      let ?evs = "?pre @ evsS @ [EvLog (Saved n d)]"
      have run: "domain_try E n p d (l, w)
            = (Inr (), (l\<lparr>currentResults := ?new,
                          checkedDomainsSet := insert (Some (JStr d)) (set ds)\<rparr>,
                        emit (EvLog (Saved n d)) w3))"
        using domain_try_append[OF False c ld[unfolded v] Inr[unfolded v] absent sv] .
      have tr: "trace (emit (EvLog (Saved n d)) w3) = trace w @ ?evs"
        using tr2 t3 by simp
      have sts: "starts ?evs = [d]" using st2 starts_save[OF es] by simp
      have rb: "read_before E p es ?evs"
        using read_before_mono[OF loaded_read_before[OF lf[unfolded v] nn],
                of "EvLog (Checking n d) # EvProbe d # xs" "evsS @ [EvLog (Saved n d)]"]
        by simp
      have ap: "appended E p d ?evs"
        unfolding appended_def
      proof (intro allI impI)
        fix src c assume "EvRename src p c \<in> set ?evs"
        then have "EvRename src p c \<in> set evsS" using nr2 by auto
        then have "c = JSON_stringify E ?new" using rename_save[OF es] by blast
        then show "\<exists>es st. c = JSON_stringify E (JArr (es @ [DomainEntry d st]))
               \<and> Some (JStr d) \<notin> set (map (prop_of ''domain'') es)
               \<and> read_before E p es ?evs"
          using absent ds rb by blast
      qed
      show ?thesis using run tr sts ap by blast
    qed
  qed
qed


text \<open>What the \<open>catch\<close> block of an iteration emits; it never throws.\<close>

lemma domain_catch_spec:
  "\<exists>l' w' evs. domain_catch E n p d (l, w) = (Inr (), (l', w'))
      \<and> trace w' = trace w @ evs \<and> appended E p d evs \<and> starts evs = []
      \<and> error_appended E p d evs"
proof -
  let ?w0 = "emit (EvLog (DomainError n d)) w"
  obtain v w2 evsL where ld: "await (safelyReadResultsFile E p) ?w0 = (Inr v, w2)"
    and t2: "trace w2 = trace ?w0 @ evsL" and el: "list_all (load_event p) evsL"
    and lf: "loaded_from E p v evsL"
    using load_spec by blast
  let ?pre = "EvLog (DomainError n d) # evsL"
  have tr2: "trace w2 = trace w @ ?pre" using t2 by simp
  have st2: "starts ?pre = []" using starts_load[OF el] by simp
  have nr2: "\<And>a c. EvRename a p c \<notin> set ?pre"
    using no_rename_load[OF el] by auto
  show ?thesis
  proof (cases "map_domain v")
    case (Inl e)
    let ?evs = "?pre @ [EvLog (SaveErrorFailed n d)]"
    have "domain_catch E n p d (l, w)
          = (Inr (), (l\<lparr>currentResults := v\<rparr>, emit (EvLog (SaveErrorFailed n d)) w2))"
      using domain_catch_malformed[OF ld Inl] .
    moreover have "trace (emit (EvLog (SaveErrorFailed n d)) w2) = trace w @ ?evs"
      using tr2 by simp
    moreover have "starts ?evs = []" using st2 by simp
    moreover have "appended E p d ?evs" using nr2 by (intro appendedI_quiet) auto
    moreover have "error_appended E p d ?evs" using nr2 by (simp add: error_appended_def)
    ultimately show ?thesis by blast
  next
    case (Inr ds)
    then obtain es where v: "v = JArr es" and nn: "JNull \<notin> set es"
      and ds: "ds = map (prop_of ''domain'') es"
      using map_domain_Inr by blast
    show ?thesis
    proof (cases "Some (JStr d) \<in> set ds")
      case True
      have "domain_catch E n p d (l, w)
            = (Inr (), (l\<lparr>currentResults := v, checkedDomainsSet := set ds\<rparr>, w2))"
        using domain_catch_present[OF ld Inr True] .
      moreover have "appended E p d ?pre" using nr2 by (intro appendedI_quiet) auto
      moreover have "error_appended E p d ?pre" using nr2 by (simp add: error_appended_def)
      ultimately show ?thesis using tr2 st2 by blast
    next
      case absent: False
      let ?new = "JArr (es @ [DomainEntry d Error])"
      obtain b w3 evsS where sv: "await (safelyWriteResultsFile E p ?new) w2 = (Inr b, w3)"
        and t3: "trace w3 = trace w2 @ evsS"
        and es: "list_all (save_event p (JSON_stringify E ?new)) evsS"
        using save_spec by blast
      let ?evs = "?pre @ evsS"
      have run: "domain_catch E n p d (l, w)
            = (Inr (), (l\<lparr>currentResults := ?new,
                          checkedDomainsSet := insert (Some (JStr d)) (set ds)\<rparr>, w3))"
        using domain_catch_append[OF ld[unfolded v] Inr[unfolded v] absent sv] .
      have tr: "trace w3 = trace w @ ?evs" using tr2 t3 by simp
      have sts: "starts ?evs = []" using st2 starts_save[OF es] by simp
      have rb: "read_before E p es ?evs"
        using read_before_mono[OF loaded_read_before[OF lf[unfolded v] nn],
                of "[EvLog (DomainError n d)]" evsS]
        by simp
      have ap: "appended E p d ?evs"
        unfolding appended_def
      proof (intro allI impI)
        fix src c assume "EvRename src p c \<in> set ?evs"
        then have "EvRename src p c \<in> set evsS" using nr2 by auto
        then have "c = JSON_stringify E ?new" using rename_save[OF es] by blast
        then show "\<exists>es st. c = JSON_stringify E (JArr (es @ [DomainEntry d st]))
               \<and> Some (JStr d) \<notin> set (map (prop_of ''domain'') es)
               \<and> read_before E p es ?evs"
          using absent ds rb by blast
      qed
      have ea: "error_appended E p d ?evs"
        unfolding error_appended_def
      proof (intro allI impI)
        fix src c assume "EvRename src p c \<in> set ?evs"
        then have "EvRename src p c \<in> set evsS" using nr2 by auto
        then have "c = JSON_stringify E ?new" using rename_save[OF es] by blast
        then have "c = JSON_stringify E
                     (JArr (es @ [JObj [(''domain'', JStr d), (''status'', JStr ''error'')]]))"
          by (simp add: DomainEntry_def)
        then show "\<exists>es. c = JSON_stringify E
                     (JArr (es @ [JObj [(''domain'', JStr d), (''status'', JStr ''error'')]]))
               \<and> Some (JStr d) \<notin> set (map (prop_of ''domain'') es)
               \<and> read_before E p es ?evs"
          using absent ds rb by blast
      qed
      show ?thesis using run tr sts ap ea by blast
    qed
  qed
qed

lemma process_domain_spec:
  "\<exists>l' w' evs. process_domain E n p d (l, w) = (Inr (), (l', w'))
      \<and> trace w' = trace w @ evs \<and> appended E p d evs \<and> starts evs = [d]"
proof -
  obtain r l1 w1 evs1 where t: "domain_try E n p d (l, w) = (r, (l1, w1))"
    and tr1: "trace w1 = trace w @ evs1" and ap1: "appended E p d evs1" and st1: "starts evs1 = [d]"
    using domain_try_spec by blast
  show ?thesis
  proof (cases r)
    case (Inr u)
    then have "process_domain E n p d (l, w) = (Inr (), (l1, w1))"
      using t by (simp add: process_domain_def io_catch_def)
    then show ?thesis using tr1 ap1 st1 by blast
  next
    case (Inl e)
    obtain l2 w2 evs2 where c: "domain_catch E n p d (l1, w1) = (Inr (), (l2, w2))"
      and tr2: "trace w2 = trace w1 @ evs2" and ap2: "appended E p d evs2"
      and st2: "starts evs2 = []"
      using domain_catch_spec by blast
    have "process_domain E n p d (l, w) = (Inr (), (l2, w2))"
      using t Inl c by (simp add: process_domain_def io_catch_def)
    moreover have "trace w2 = trace w @ evs1 @ evs2" using tr1 tr2 by simp
    moreover have "appended E p d (evs1 @ evs2)" using ap1 ap2 by (rule appended_append)
    moreover have "starts (evs1 @ evs2) = [d]" using st1 st2 by simp
    ultimately show ?thesis by blast
  qed
qed

text \<open>The loop over the batch begins an iteration for every domain, in order.\<close>

lemma for_of_process_domain_spec:
  "\<exists>l' w' evs. for_of domains (process_domain E n p) (l, w) = (Inr (), (l', w'))
      \<and> trace w' = trace w @ evs \<and> starts evs = domains"
proof (induction domains arbitrary: l w)
  case Nil
  show ?case by simp
next
  case (Cons d ds)
  obtain l1 w1 evs1 where a: "process_domain E n p d (l, w) = (Inr (), (l1, w1))"
    and tr1: "trace w1 = trace w @ evs1" and st1: "starts evs1 = [d]"
    using process_domain_spec by blast
  obtain l2 w2 evs2 where b: "for_of ds (process_domain E n p) (l1, w1) = (Inr (), (l2, w2))"
    and tr2: "trace w2 = trace w1 @ evs2" and st2: "starts evs2 = ds"
    using Cons.IH by blast
  have "for_of (d # ds) (process_domain E n p) (l, w) = (Inr (), (l2, w2))"
    using a b by simp
  moreover have "trace w2 = trace w @ evs1 @ evs2" using tr1 tr2 by simp
  moreover have "starts (evs1 @ evs2) = d # ds" using st1 st2 by simp
  ultimately show ?case by blast
qed

text \<open>Appending a record for an absent domain keeps the domains of a sequence distinct.\<close>

lemma prop_domain_DomainEntry [simp]: "prop_of ''domain'' (DomainEntry d st) = Some (JStr d)"
  by (simp add: prop_of_def DomainEntry_def)

lemma DomainEntry_not_null [simp]: "DomainEntry d st \<noteq> JNull" "JNull \<noteq> DomainEntry d st"
  by (simp_all add: DomainEntry_def)

lemma read_before_unique:
  assumes "read_before E p es evs" "good_reads E p evs"
  shows "unique_domains (JArr es)"
proof (cases "es = []")
  case True
  then show ?thesis by simp
next
  case False
  then obtain c where c: "EvRead p c \<in> set evs" "trim c \<noteq> []" "JSON_parse E c = Some (JArr es)"
    using assms(1) by (auto simp: read_before_def)
  have "store_view E c = JArr es" using c(2,3) by (simp add: store_view_def)
  then show ?thesis using assms(2) c(1) by (auto simp: good_reads_def)
qed

lemma appended_preserves:
  assumes "appended E p d evs" "good_reads E p evs"
  shows "good_renames E p evs"
  unfolding good_renames_def
proof (intro allI impI)
  fix src c assume "EvRename src p c \<in> set evs"
  then obtain es st where c: "c = JSON_stringify E (JArr (es @ [DomainEntry d st]))"
    and a: "Some (JStr d) \<notin> set (map (prop_of ''domain'') es)" and rb: "read_before E p es evs"
    using assms(1) unfolding appended_def by blast
  have "unique_domains (JArr es)" using rb assms(2) by (rule read_before_unique)
  then have "unique_domains (JArr (es @ [DomainEntry d st]))"
    using a unfolding unique_domains_iff by simp
  then show "\<exists>v. c = JSON_stringify E v \<and> unique_domains v" using c by blast
qed

lemma filtered_preserves:
  assumes "filtered E p evs" "good_reads E p evs"
  shows "good_renames E p evs"
  unfolding good_renames_def
proof (intro allI impI)
  fix src c assume "EvRename src p c \<in> set evs"
  then obtain es where c: "c = JSON_stringify E (JArr (filter (\<lambda>e. \<not> is_error_record e) es))"
    and rb: "read_before E p es evs"
    using assms(1) unfolding filtered_def by blast
  have "unique_domains (JArr es)" using rb assms(2) by (rule read_before_unique)
  then have "unique_domains (JArr (filter (\<lambda>e. \<not> is_error_record e) es))"
    unfolding unique_domains_iff by (auto simp: distinct_map_filter)
  then show "\<exists>v. c = JSON_stringify E v \<and> unique_domains v" using c by blast
qed


lemma filter_valid_entries_no_null: "filter_valid_entries es = Inr vs \<Longrightarrow> JNull \<notin> set es"
proof (induction es arbitrary: vs)
  case Nil
  then show ?case by simp
next
  case (Cons e es)
  then show ?case by (cases e) (auto split: sum.splits)
qed

lemma filter_valid_Inr:
  assumes "filter_valid v = Inr fv"
  shows "\<exists>es. v = JArr es \<and> JNull \<notin> set es
           \<and> fv = JArr (filter (\<lambda>e. \<not> is_error_record e) es)"
proof (cases v)
  case (JArr es)
  then obtain vs where m: "filter_valid_entries es = Inr vs" and fv: "fv = JArr vs"
    using assms by (auto split: sum.splits)
  then have n: "JNull \<notin> set es" using filter_valid_entries_no_null by blast
  then show ?thesis using m fv JArr by (simp add: filter_valid_entries_total)
qed (use assms in simp_all)

lemma filteredI_quiet: "(\<And>a c. EvRename a p c \<notin> set evs) \<Longrightarrow> filtered E p evs"
  by (simp add: filtered_def)

lemma loaded_length: "loaded_from E p v evs \<Longrightarrow> js_length v = Inr ()"
  by (simp add: loaded_from_def)

text \<open>What the orchestrator's reconciliation emits.\<close>

lemma reconcile_spec:
  "\<exists>r w' evs. reconcile E p unique w = (r, w') \<and> trace w' = trace w @ evs \<and> filtered E p evs"
proof -
  obtain v w1 evsL where ld: "await (safelyReadResultsFile E p) w = (Inr v, w1)"
    and t1: "trace w1 = trace w @ evsL" and el: "list_all (load_event p) evsL"
    and lf: "loaded_from E p v evsL"
    using load_spec by blast
  have len: "js_length v = Inr ()" using lf by (rule loaded_length)
  have nr1: "\<And>a c. EvRename a p c \<notin> set evsL" using no_rename_load[OF el] by auto
  show ?thesis
  proof (cases "filter_valid v")
    case (Inl e)
    have "reconcile E p unique w = (Inl e, w1)"
      using ld len Inl by (simp add: reconcile_def worker_defs)
    then show ?thesis using t1 filteredI_quiet[of p evsL E] nr1 by blast
  next
    case (Inr fv)
    then obtain es where v: "v = JArr es" and nn: "JNull \<notin> set es"
      and fv: "fv = JArr (filter (\<lambda>e. \<not> is_error_record e) es)"
      using filter_valid_Inr by blast
    let ?valid = "filter (\<lambda>e. \<not> is_error_record e) es"
    have md: "map_domain (JArr ?valid) = Inr (map (prop_of ''domain'') ?valid)"
      using nn by (simp add: map_props_total)
    show ?thesis
    proof (cases "length ?valid < length es")
      case True
      obtain b w2 evsS where sv: "await (safelyWriteResultsFile E p (JArr ?valid)) w1 = (Inr b, w2)"
        and t2: "trace w2 = trace w1 @ evsS"
        and es: "list_all (save_event p (JSON_stringify E (JArr ?valid))) evsS"
        using save_spec by blast
      have run: "reconcile E p unique w
            = (Inr (filter (\<lambda>domain. Some (JStr domain) \<notin> set (map (prop_of ''domain'') ?valid))
                      unique), w2)"
        using ld[unfolded v] len[unfolded v] Inr[unfolded fv v] True sv md
        by (simp add: reconcile_def worker_defs io_when_def
              del: filter_valid.simps map_domain.simps js_length.simps)
      have tr: "trace w2 = trace w @ evsL @ evsS" using t1 t2 by simp
      have rb: "read_before E p es (evsL @ evsS)"
        using read_before_mono[OF loaded_read_before[OF lf[unfolded v] nn], of "[]" evsS] by simp
      have "filtered E p (evsL @ evsS)"
        unfolding filtered_def
      proof (intro allI impI)
        fix src c assume "EvRename src p c \<in> set (evsL @ evsS)"
        then have "EvRename src p c \<in> set evsS" using nr1 by auto
        then have "c = JSON_stringify E (JArr ?valid)" using rename_save[OF es] by blast
        then show "\<exists>es. c = JSON_stringify E (JArr (filter (\<lambda>e. \<not> is_error_record e) es))
               \<and> read_before E p es (evsL @ evsS)"
          using rb by blast
      qed
      then show ?thesis using run tr by blast
    next
      case False
      have "reconcile E p unique w
            = (Inr (filter (\<lambda>domain. Some (JStr domain) \<notin> set (map (prop_of ''domain'') ?valid))
                      unique), w1)"
        using ld[unfolded v] len[unfolded v] Inr[unfolded fv v] False md
        by (simp add: reconcile_def worker_defs io_when_def
              del: filter_valid.simps map_domain.simps js_length.simps)
      then show ?thesis using t1 filteredI_quiet[of p evsL E] nr1 by blast
    qed
  qed
qed

lemma emitted_trace: "trace w' = trace w @ evs \<Longrightarrow> emitted w w' = evs"
  by (simp add: emitted_def)


text \<open>Without a fault and without another actor, an iteration runs as written.\<close>

lemma await_idle: "m w = (r, w') \<Longrightarrow> pending w' = [] \<Longrightarrow> await m w = (r, w')"
  by (simp add: await_def yield_def)

lemma check_idle:
  assumes "pending w = []"
  shows "await (checkDomainAvailability E d) w
         = (Inr (case probe E d of Inl e \<Rightarrow> Error | Inr st \<Rightarrow> st), emit (EvProbe d) w)"
  using assms
  by (cases "probe E d")
     (simp_all add: await_def yield_def checkDomainAvailability_def
        checkDomainAvailabilityName_def io_catch_def io_return_def emit_def)

lemma load_idle:
  assumes "faults w = []" "pending w = []" "files w p = Some c" "trim c \<noteq> []"
    "JSON_parse E c = Some (JArr es)"
  shows "await (safelyReadResultsFile E p) w = (Inr (JArr es), emit (EvRead p c) w)"
proof -
  have "safelyReadResultsFile E p w = (Inr (JArr es), emit (EvRead p c) w)"
    using assms(1,3,4,5) by (intro load_parsed) simp_all
  moreover have "pending (emit (EvRead p c) w) = []" using assms(2) by (simp add: emit_def)
  ultimately show ?thesis by (rule await_idle)
qed

lemma save_idle:
  assumes "faults w = []" "pending w = []" "files w p = Some c"
  shows "\<exists>w'. await (safelyWriteResultsFile E p (JArr es)) w = (Inr True, w')
           \<and> files w' p = Some (JSON_stringify E (JArr es))"
proof -
  obtain w' where s: "safelyWriteResultsFile E p (JArr es) w = (Inr True, w')"
    and f: "files w' p = Some (JSON_stringify E (JArr es))" and q: "pending w' = pending w"
    using save_no_fault[of w "JArr es" p c E] assms(1,3) by auto
  have "pending w' = []" using q assms(2) by simp
  then have "await (safelyWriteResultsFile E p (JArr es)) w = (Inr True, w')"
    using s by (intro await_idle)
  then show ?thesis using f by blast
qed

lemma domain_catch_idle:
  assumes "faults w = []" "pending w = []" "files w p = Some c" "trim c \<noteq> []"
    "JSON_parse E c = Some (JArr es)" "JNull \<notin> set es"
  shows "(Some (JStr d) \<notin> set (map (prop_of ''domain'') es) \<longrightarrow>
            files (snd (snd (domain_catch E n p d (l, w)))) p
            = Some (JSON_stringify E
                 (JArr (es @ [JObj [(''domain'', JStr d), (''status'', JStr ''error'')]]))))
         \<and> (Some (JStr d) \<in> set (map (prop_of ''domain'') es) \<longrightarrow>
            files (snd (snd (domain_catch E n p d (l, w)))) = files w)"
proof -
  let ?w0 = "emit (EvLog (DomainError n d)) w"
  let ?w2 = "emit (EvRead p c) ?w0"
  have w0: "faults ?w0 = []" "pending ?w0 = []" "files ?w0 p = Some c"
    using assms(1,2,3) by (simp_all add: emit_def)
  have ld: "await (safelyReadResultsFile E p) ?w0 = (Inr (JArr es), ?w2)"
    using load_idle[OF w0 assms(4,5)] .
  have md: "map_domain (JArr es) = Inr (map (prop_of ''domain'') es)"
    using assms(6) by (simp add: map_props_total)
  have w2: "faults ?w2 = []" "pending ?w2 = []" "files ?w2 p = Some c"
    using assms(1,2,3) by (simp_all add: emit_def)
  show ?thesis
  proof (intro conjI impI)
    assume absent: "Some (JStr d) \<notin> set (map (prop_of ''domain'') es)"
    obtain w3 where sv: "await (safelyWriteResultsFile E p (JArr (es @ [DomainEntry d Error]))) ?w2
        = (Inr True, w3)"
      and f: "files w3 p = Some (JSON_stringify E (JArr (es @ [DomainEntry d Error])))"
      using save_idle[OF w2] by blast
    have "domain_catch E n p d (l, w)
            = (Inr (), (l\<lparr>currentResults := JArr (es @ [DomainEntry d Error]),
                          checkedDomainsSet := insert (Some (JStr d))
                             (set (map (prop_of ''domain'') es))\<rparr>, w3))"
      using domain_catch_append[OF ld md absent sv] .
    then show "files (snd (snd (domain_catch E n p d (l, w)))) p
            = Some (JSON_stringify E
                 (JArr (es @ [JObj [(''domain'', JStr d), (''status'', JStr ''error'')]])))"
      using f by (simp add: DomainEntry_def)
  next
    assume present: "Some (JStr d) \<in> set (map (prop_of ''domain'') es)"
    have "domain_catch E n p d (l, w)
            = (Inr (), (l\<lparr>currentResults := JArr es,
                          checkedDomainsSet := set (map (prop_of ''domain'') es)\<rparr>, ?w2))"
      using domain_catch_present[OF ld md present] .
    then show "files (snd (snd (domain_catch E n p d (l, w)))) = files w"
      by (simp add: emit_def)
  qed
qed

lemma process_domain_idle:
  assumes "faults w = []" "pending w = []" "files w p = Some c" "trim c \<noteq> []"
    "JSON_parse E c = Some (JArr es)" "JNull \<notin> set es"
    "Some (JStr d) \<notin> set (map (prop_of ''domain'') es)" "Some (JStr d) \<notin> checkedDomainsSet l"
  shows "files (snd (snd (process_domain E n p d (l, w)))) p
         = Some (JSON_stringify E
              (JArr (es @ [JObj [(''domain'', JStr d),
                 (''status'',
                  JStr (status_string (case probe E d of Inl e \<Rightarrow> Error | Inr st \<Rightarrow> st)))]])))"
proof -
  define st where "st = (case probe E d of Inl e \<Rightarrow> Error | Inr st \<Rightarrow> st)"
  let ?w0 = "emit (EvLog (Checking n d)) w"
  let ?w1 = "emit (EvProbe d) ?w0"
  let ?w2 = "emit (EvRead p c) ?w1"
  have p0: "pending ?w0 = []" using assms(2) by (simp add: emit_def)
  have ck: "await (checkDomainAvailability E d) ?w0 = (Inr st, ?w1)"
    using check_idle[OF p0] by (simp add: st_def)
  have w1: "faults ?w1 = []" "pending ?w1 = []" "files ?w1 p = Some c"
    using assms(1,2,3) by (simp_all add: emit_def)
  have ld: "await (safelyReadResultsFile E p) ?w1 = (Inr (JArr es), ?w2)"
    using load_idle[OF w1 assms(4,5)] .
  have md: "map_domain (JArr es) = Inr (map (prop_of ''domain'') es)"
    using assms(6) by (simp add: map_props_total)
  have w2: "faults ?w2 = []" "pending ?w2 = []" "files ?w2 p = Some c"
    using assms(1,2,3) by (simp_all add: emit_def)
  obtain w3 where sv: "await (safelyWriteResultsFile E p (JArr (es @ [DomainEntry d st]))) ?w2
        = (Inr True, w3)"
    and f: "files w3 p = Some (JSON_stringify E (JArr (es @ [DomainEntry d st])))"
    using save_idle[OF w2] by blast
  have "domain_try E n p d (l, w)
         = (Inr (), (l\<lparr>currentResults := JArr (es @ [DomainEntry d st]),
                       checkedDomainsSet := insert (Some (JStr d))
                          (set (map (prop_of ''domain'') es))\<rparr>,
                     emit (EvLog (Saved n d)) w3))"
    using domain_try_append[OF assms(8) ck ld md assms(7) sv] .
  then have "process_domain E n p d (l, w)
         = (Inr (), (l\<lparr>currentResults := JArr (es @ [DomainEntry d st]),
                       checkedDomainsSet := insert (Some (JStr d))
                          (set (map (prop_of ''domain'') es))\<rparr>,
                     emit (EvLog (Saved n d)) w3))"
    by (simp add: process_domain_def io_catch_def)
  then have "files (snd (snd (process_domain E n p d (l, w)))) p
            = Some (JSON_stringify E
                 (JArr (es @ [JObj [(''domain'', JStr d), (''status'', JStr (status_string st))]])))"
    using f by (simp add: DomainEntry_def emit_def)
  then show ?thesis unfolding st_def .
qed

section \<open>The domain input\<close>





section \<open>The store invariant\<close>

text \<open>
  C4.  Each operation that writes the store keeps its domains unique: in a run of the
  \<open>try\<close> block of a worker's iteration (which appends a result record), of its \<open>catch\<close>
  block (which appends an error record) and of the orchestrator's reconciliation (which
  persists the baseline without its error records), whatever calls fail and whatever
  other actors do to the files meanwhile, if every read of the store found a sequence
  of records no two of which share a domain, then every rename onto the store carries
  the serialization of such a sequence.
\<close>

theorem C4_store_mutations_preserve_uniqueness:
  "(\<forall>r l' w'. domain_try E n p d (l, w) = (r, (l', w')) \<longrightarrow>
       good_reads E p (emitted w w') \<longrightarrow> good_renames E p (emitted w w'))
   \<and> (\<forall>r l' w'. domain_catch E n p d (l, w) = (r, (l', w')) \<longrightarrow>
       good_reads E p (emitted w w') \<longrightarrow> good_renames E p (emitted w w'))
   \<and> (\<forall>r w'. reconcile E p unique w = (r, w') \<longrightarrow>
       good_reads E p (emitted w w') \<longrightarrow> good_renames E p (emitted w w'))"
proof (intro conjI allI impI)
  fix r l' w'
  assume run: "domain_try E n p d (l, w) = (r, (l', w'))" and g: "good_reads E p (emitted w w')"
  obtain r0 l0 w0 evs where s: "domain_try E n p d (l, w) = (r0, (l0, w0))"
    "trace w0 = trace w @ evs" "appended E p d evs"
    using domain_try_spec by blast
  have "w0 = w'" using run s(1) by simp
  then have "emitted w w' = evs" using s(2) by (simp add: emitted_trace)
  then show "good_renames E p (emitted w w')" using s(3) g appended_preserves by simp
next
  fix r l' w'
  assume run: "domain_catch E n p d (l, w) = (r, (l', w'))" and g: "good_reads E p (emitted w w')"
  obtain l0 w0 evs where s: "domain_catch E n p d (l, w) = (Inr (), (l0, w0))"
    "trace w0 = trace w @ evs" "appended E p d evs"
    using domain_catch_spec by blast
  have "w0 = w'" using run s(1) by simp
  then have "emitted w w' = evs" using s(2) by (simp add: emitted_trace)
  then show "good_renames E p (emitted w w')" using s(3) g appended_preserves by simp
next
  fix r w'
  assume run: "reconcile E p unique w = (r, w')" and g: "good_reads E p (emitted w w')"
  obtain r0 w0 evs where s: "reconcile E p unique w = (r0, w0)"
    "trace w0 = trace w @ evs" "filtered E p evs"
    using reconcile_spec by blast
  have "w0 = w'" using run s(1) by simp
  then have "emitted w w' = evs" using s(2) by (simp add: emitted_trace)
  then show "good_renames E p (emitted w w')" using s(3) g filtered_preserves by simp
qed

theorem C4_uniqueness_witness:
  "good_reads demo_env store_path
     (emitted a_world (snd (snd (domain_try demo_env 1 store_path ''b.com'' (a_locals, a_world)))))
   \<and> good_renames demo_env store_path
     (emitted a_world (snd (snd (domain_try demo_env 1 store_path ''b.com'' (a_locals, a_world)))))
   \<and> EvRename (store_path @ ''.tmp'') store_path
        (json_stringify (JArr [DomainEntry ''a.com'' Available, DomainEntry ''b.com'' Unavailable]))
      \<in> set (emitted a_world
                (snd (snd (domain_try demo_env 1 store_path ''b.com'' (a_locals, a_world)))))
   \<and> good_reads demo_env store_path
     (emitted a_world (snd (snd (domain_catch demo_env 1 store_path ''b.com'' (a_locals, a_world)))))
   \<and> good_renames demo_env store_path
     (emitted a_world (snd (snd (domain_catch demo_env 1 store_path ''b.com'' (a_locals, a_world)))))
   \<and> EvRename (store_path @ ''.tmp'') store_path
        (json_stringify (JArr [DomainEntry ''a.com'' Available, DomainEntry ''b.com'' Error]))
      \<in> set (emitted a_world
                (snd (snd (domain_catch demo_env 1 store_path ''b.com'' (a_locals, a_world)))))
   \<and> good_reads demo_env store_path
     (emitted error_world (snd (reconcile demo_env store_path [''a.com'', ''b.com''] error_world)))
   \<and> good_renames demo_env store_path
     (emitted error_world (snd (reconcile demo_env store_path [''a.com'', ''b.com''] error_world)))
   \<and> EvRename (store_path @ ''.tmp'') store_path
        (json_stringify (JArr [DomainEntry ''a.com'' Available]))
      \<in> set (emitted error_world
                (snd (reconcile demo_env store_path [''a.com'', ''b.com''] error_world)))"
proof -
  let ?a = "json_stringify (JArr [DomainEntry ''a.com'' Available])"
  let ?ab = "json_stringify (JArr [DomainEntry ''a.com'' Available, DomainEntry ''b.com'' Unavailable])"
  let ?ae = "json_stringify (JArr [DomainEntry ''a.com'' Available, DomainEntry ''b.com'' Error])"
  let ?e = "json_stringify (JArr store_with_error)"
  let ?t = "domain_try demo_env 1 store_path ''b.com'' (a_locals, a_world)"
  let ?c = "domain_catch demo_env 1 store_path ''b.com'' (a_locals, a_world)"
  let ?r = "reconcile demo_env store_path [''a.com'', ''b.com''] error_world"
  have ua: "unique_domains (store_view demo_env ?a)" by code_simp
  have ue: "unique_domains (store_view demo_env ?e)" by code_simp
  have tt: "emitted a_world (snd (snd ?t))
      = [EvLog (Checking 1 ''b.com''), EvProbe ''b.com'', EvRead store_path ?a,
         EvCopy store_path (store_path @ ''.backup'') ?a,
         EvWrite (store_path @ ''.tmp'') ?ab, EvRename (store_path @ ''.tmp'') store_path ?ab,
         EvLog (Saved 1 ''b.com'')]"
    by code_simp
  have tc: "emitted a_world (snd (snd ?c))
      = [EvLog (DomainError 1 ''b.com''), EvRead store_path ?a,
         EvCopy store_path (store_path @ ''.backup'') ?a,
         EvWrite (store_path @ ''.tmp'') ?ae, EvRename (store_path @ ''.tmp'') store_path ?ae]"
    by code_simp
  have tr: "emitted error_world (snd ?r)
      = [EvRead store_path ?e, EvCopy store_path (store_path @ ''.backup'') ?e,
         EvWrite (store_path @ ''.tmp'') ?a, EvRename (store_path @ ''.tmp'') store_path ?a]"
    by code_simp
  have gt: "good_reads demo_env store_path (emitted a_world (snd (snd ?t)))"
    unfolding tt good_reads_def using ua by simp
  have gc: "good_reads demo_env store_path (emitted a_world (snd (snd ?c)))"
    unfolding tc good_reads_def using ua by simp
  have gr: "good_reads demo_env store_path (emitted error_world (snd ?r))"
    unfolding tr good_reads_def using ue by simp
  have et: "?t = (fst ?t, (fst (snd ?t), snd (snd ?t)))" by simp
  have ec: "?c = (fst ?c, (fst (snd ?c), snd (snd ?c)))" by simp
  have er: "?r = (fst ?r, snd ?r)" by simp
  note C4 = C4_store_mutations_preserve_uniqueness
      [of demo_env 1 store_path "''b.com''" a_locals a_world "[''a.com'', ''b.com'']"]
  have "good_renames demo_env store_path (emitted a_world (snd (snd ?t)))"
    using C4 et gt by blast
  moreover have "good_renames demo_env store_path (emitted a_world (snd (snd ?c)))"
    using C4 ec gc by blast
  moreover have "good_renames demo_env store_path (emitted error_world (snd ?r))"
    using C4_store_mutations_preserve_uniqueness
      [of demo_env 1 store_path "''b.com''" a_locals error_world "[''a.com'', ''b.com'']"]
      er gr by blast
  moreover have "EvRename (store_path @ ''.tmp'') store_path ?ab
      \<in> set (emitted a_world (snd (snd ?t)))"
    unfolding tt by simp
  moreover have "EvRename (store_path @ ''.tmp'') store_path ?ae
      \<in> set (emitted a_world (snd (snd ?c)))"
    unfolding tc by simp
  moreover have "EvRename (store_path @ ''.tmp'') store_path ?a
      \<in> set (emitted error_world (snd ?r))"
    unfolding tr by simp
  ultimately show ?thesis using gt gc gr by blast
qed

section \<open>A failing domain\<close>

text \<open>
  C7.  The loop over a worker's partition returns normally and begins an iteration for
  every domain of the partition, in order, whatever calls fail and whatever other actors
  do meanwhile.  When the \<open>try\<close> block of an iteration throws, the \<open>catch\<close> block runs.
  The \<open>catch\<close> block always returns normally, and whatever it renames onto the store is a
  sequence it has itself loaded from the store (or the empty sequence) in which the
  domain is absent, with the record \<open>{ domain: d, status: 'error' }\<close> appended.  When no
  call fails and no other actor interferes, and the store holds an array of records:
  if the domain is absent from the store, the store afterwards holds the array with the
  record \<open>{ domain: d, status: 'error' }\<close> appended, and if it is present the files are
  unchanged.  A failure of the remote check does not reach the \<open>try\<close> block:
  \<open>checkDomainAvailability\<close> answers it with the status \<open>error\<close>, and under the same
  conditions an iteration for an absent domain the worker has not cached leaves the
  store holding the array with the record \<open>{ domain: d, status: 'error' }\<close> appended.
\<close>

theorem C7_domain_failure_is_contained:
  "(\<exists>l' w'. for_of domains (process_domain E n p) (l, w) = (Inr (), (l', w'))
        \<and> starts (emitted w w') = domains)
   \<and> (\<forall>e l1 w1. domain_try E n p d (l, w) = (Inl e, (l1, w1)) \<longrightarrow>
         process_domain E n p d (l, w) = domain_catch E n p d (l1, w1))
   \<and> (\<exists>l' w'. domain_catch E n p d (l, w) = (Inr (), (l', w'))
        \<and> (\<forall>src c. EvRename src p c \<in> set (emitted w w') \<longrightarrow>
              (\<exists>es. c = JSON_stringify E
                           (JArr (es @ [JObj [(''domain'', JStr d), (''status'', JStr ''error'')]]))
                  \<and> Some (JStr d) \<notin> set (map (prop_of ''domain'') es)
                  \<and> read_before E p es (emitted w w'))))
   \<and> (\<forall>c es. faults w = [] \<and> pending w = [] \<and> files w p = Some c \<and> trim c \<noteq> []
          \<and> JSON_parse E c = Some (JArr es) \<and> JNull \<notin> set es \<longrightarrow>
        (Some (JStr d) \<notin> set (map (prop_of ''domain'') es) \<longrightarrow>
           files (snd (snd (domain_catch E n p d (l, w)))) p
           = Some (JSON_stringify E
                (JArr (es @ [JObj [(''domain'', JStr d), (''status'', JStr ''error'')]]))))
        \<and> (Some (JStr d) \<in> set (map (prop_of ''domain'') es) \<longrightarrow>
             files (snd (snd (domain_catch E n p d (l, w)))) = files w))
   \<and> (\<forall>c es e. faults w = [] \<and> pending w = [] \<and> files w p = Some c \<and> trim c \<noteq> []
          \<and> JSON_parse E c = Some (JArr es) \<and> JNull \<notin> set es
          \<and> Some (JStr d) \<notin> set (map (prop_of ''domain'') es)
          \<and> Some (JStr d) \<notin> checkedDomainsSet l \<and> probe E d = Inl e \<longrightarrow>
        files (snd (snd (process_domain E n p d (l, w)))) p
        = Some (JSON_stringify E
             (JArr (es @ [JObj [(''domain'', JStr d), (''status'', JStr ''error'')]]))))"
proof (intro conjI)
  obtain l' w' evs where "for_of domains (process_domain E n p) (l, w) = (Inr (), (l', w'))"
    "trace w' = trace w @ evs" "starts evs = domains"
    using for_of_process_domain_spec by blast
  then show "\<exists>l' w'. for_of domains (process_domain E n p) (l, w) = (Inr (), (l', w'))
        \<and> starts (emitted w w') = domains"
    by (auto simp: emitted_trace)
next
  show "\<forall>e l1 w1. domain_try E n p d (l, w) = (Inl e, (l1, w1)) \<longrightarrow>
         process_domain E n p d (l, w) = domain_catch E n p d (l1, w1)"
    by (simp add: process_domain_def io_catch_def)
next
  obtain l' w' evs where r: "domain_catch E n p d (l, w) = (Inr (), (l', w'))"
    and t: "trace w' = trace w @ evs" and a: "error_appended E p d evs"
    using domain_catch_spec by blast
  have "emitted w w' = evs" using t by (rule emitted_trace)
  then have "\<forall>src c. EvRename src p c \<in> set (emitted w w') \<longrightarrow>
              (\<exists>es. c = JSON_stringify E
                           (JArr (es @ [JObj [(''domain'', JStr d), (''status'', JStr ''error'')]]))
                  \<and> Some (JStr d) \<notin> set (map (prop_of ''domain'') es)
                  \<and> read_before E p es (emitted w w'))"
    using a unfolding error_appended_def by simp
  then show "\<exists>l' w'. domain_catch E n p d (l, w) = (Inr (), (l', w'))
        \<and> (\<forall>src c. EvRename src p c \<in> set (emitted w w') \<longrightarrow>
              (\<exists>es. c = JSON_stringify E
                           (JArr (es @ [JObj [(''domain'', JStr d), (''status'', JStr ''error'')]]))
                  \<and> Some (JStr d) \<notin> set (map (prop_of ''domain'') es)
                  \<and> read_before E p es (emitted w w')))"
    using r by blast
next
  show "\<forall>c es. faults w = [] \<and> pending w = [] \<and> files w p = Some c \<and> trim c \<noteq> []
          \<and> JSON_parse E c = Some (JArr es) \<and> JNull \<notin> set es \<longrightarrow>
        (Some (JStr d) \<notin> set (map (prop_of ''domain'') es) \<longrightarrow>
           files (snd (snd (domain_catch E n p d (l, w)))) p
           = Some (JSON_stringify E
                (JArr (es @ [JObj [(''domain'', JStr d), (''status'', JStr ''error'')]]))))
        \<and> (Some (JStr d) \<in> set (map (prop_of ''domain'') es) \<longrightarrow>
             files (snd (snd (domain_catch E n p d (l, w)))) = files w)"
  proof (intro allI impI)
    fix c es
    assume h: "faults w = [] \<and> pending w = [] \<and> files w p = Some c \<and> trim c \<noteq> []
          \<and> JSON_parse E c = Some (JArr es) \<and> JNull \<notin> set es"
    show "(Some (JStr d) \<notin> set (map (prop_of ''domain'') es) \<longrightarrow>
           files (snd (snd (domain_catch E n p d (l, w)))) p
           = Some (JSON_stringify E
                (JArr (es @ [JObj [(''domain'', JStr d), (''status'', JStr ''error'')]]))))
        \<and> (Some (JStr d) \<in> set (map (prop_of ''domain'') es) \<longrightarrow>
             files (snd (snd (domain_catch E n p d (l, w)))) = files w)"
      using h by (intro domain_catch_idle[of w p c E es]) blast+
  qed
next
  show "\<forall>c es e. faults w = [] \<and> pending w = [] \<and> files w p = Some c \<and> trim c \<noteq> []
          \<and> JSON_parse E c = Some (JArr es) \<and> JNull \<notin> set es
          \<and> Some (JStr d) \<notin> set (map (prop_of ''domain'') es)
          \<and> Some (JStr d) \<notin> checkedDomainsSet l \<and> probe E d = Inl e \<longrightarrow>
        files (snd (snd (process_domain E n p d (l, w)))) p
        = Some (JSON_stringify E
             (JArr (es @ [JObj [(''domain'', JStr d), (''status'', JStr ''error'')]])))"
  proof (intro allI impI)
    fix c es e
    assume h: "faults w = [] \<and> pending w = [] \<and> files w p = Some c \<and> trim c \<noteq> []
          \<and> JSON_parse E c = Some (JArr es) \<and> JNull \<notin> set es
          \<and> Some (JStr d) \<notin> set (map (prop_of ''domain'') es)
          \<and> Some (JStr d) \<notin> checkedDomainsSet l \<and> probe E d = Inl e"
    have "files (snd (snd (process_domain E n p d (l, w)))) p
            = Some (JSON_stringify E
                 (JArr (es @ [JObj [(''domain'', JStr d),
                    (''status'',
                     JStr (status_string
                       (case probe E d of Inl e \<Rightarrow> Error | Inr st \<Rightarrow> st)))]])))"
      using h by (intro process_domain_idle[of w p c E es d l n]) blast+
    then show "files (snd (snd (process_domain E n p d (l, w)))) p
        = Some (JSON_stringify E
             (JArr (es @ [JObj [(''domain'', JStr d), (''status'', JStr ''error'')]])))"
      using h by simp
  qed
qed

theorem C7_containment_witness:
  "fst (domain_try demo_env 1 store_path ''a.com'' (empty_locals, corrupting_world)) = Inl TypeError
   \<and> process_domain demo_env 1 store_path ''a.com'' (empty_locals, corrupting_world)
     = domain_catch demo_env 1 store_path ''a.com''
         (snd (domain_try demo_env 1 store_path ''a.com'' (empty_locals, corrupting_world)))
   \<and> fst (for_of [''a.com'', ''b.com''] (process_domain demo_env 1 store_path)
            (empty_locals, corrupting_world)) = Inr ()
   \<and> starts (emitted corrupting_world
        (snd (snd (for_of [''a.com'', ''b.com''] (process_domain demo_env 1 store_path)
                     (empty_locals, corrupting_world)))))
     = [''a.com'', ''b.com'']
   \<and> files (snd (snd (for_of [''a.com'', ''b.com''] (process_domain demo_env 1 store_path)
                        (empty_locals, corrupting_world)))) store_path
     = Some ''[\<newline>    {\<newline>        \"domain\": \"a.com\",\<newline>        \"status\": \"error\"\<newline>    },\<newline>    {\<newline>        \"domain\": \"b.com\",\<newline>        \"status\": \"unavailable\"\<newline>    }\<newline>]''
   \<and> JSON_parse demo_env one_record_text
     = Some (JArr [JObj [(''domain'', JStr ''a.com''), (''status'', JStr ''available'')]])
   \<and> EvRename (store_path @ ''.tmp'') store_path
        (json_stringify
           (JArr [JObj [(''domain'', JStr ''a.com''), (''status'', JStr ''available'')],
                  JObj [(''domain'', JStr ''b.com''), (''status'', JStr ''error'')]]))
      \<in> set (emitted one_record_world
           (snd (snd (domain_catch demo_env 1 store_path ''b.com''
                        (empty_locals, one_record_world)))))
   \<and> (\<exists>es. json_stringify
              (JArr [JObj [(''domain'', JStr ''a.com''), (''status'', JStr ''available'')],
                     JObj [(''domain'', JStr ''b.com''), (''status'', JStr ''error'')]])
            = JSON_stringify demo_env
                (JArr (es @ [JObj [(''domain'', JStr ''b.com''), (''status'', JStr ''error'')]]))
          \<and> Some (JStr ''b.com'') \<notin> set (map (prop_of ''domain'') es)
          \<and> read_before demo_env store_path es
               (emitted one_record_world
                  (snd (snd (domain_catch demo_env 1 store_path ''b.com''
                               (empty_locals, one_record_world))))))
   \<and> files (snd (snd (domain_catch demo_env 1 store_path ''b.com''
                        (empty_locals, one_record_world)))) store_path
     = Some (json_stringify
           (JArr [JObj [(''domain'', JStr ''a.com''), (''status'', JStr ''available'')],
                  JObj [(''domain'', JStr ''b.com''), (''status'', JStr ''error'')]]))
   \<and> files (snd (snd (domain_catch demo_env 1 store_path ''b.com''
                        (empty_locals, one_record_world)))) store_path
     = Some ''[\<newline>    {\<newline>        \"domain\": \"a.com\",\<newline>        \"status\": \"available\"\<newline>    },\<newline>    {\<newline>        \"domain\": \"b.com\",\<newline>        \"status\": \"error\"\<newline>    }\<newline>]''
   \<and> files (snd (snd (domain_catch demo_env 1 store_path ''a.com''
                        (empty_locals, one_record_world))))
     = files one_record_world
   \<and> probe failing_probe_env ''b.com'' = Inl RemoteError
   \<and> files (snd (snd (process_domain failing_probe_env 1 store_path ''b.com''
                        (empty_locals, one_record_world)))) store_path
     = Some ''[\<newline>    {\<newline>        \"domain\": \"a.com\",\<newline>        \"status\": \"available\"\<newline>    },\<newline>    {\<newline>        \"domain\": \"b.com\",\<newline>        \"status\": \"error\"\<newline>    }\<newline>]''"
proof -
  let ?t = "domain_try demo_env 1 store_path ''a.com'' (empty_locals, corrupting_world)"
  let ?f = "for_of [''a.com'', ''b.com''] (process_domain demo_env 1 store_path)
              (empty_locals, corrupting_world)"
  let ?cb = "domain_catch demo_env 1 store_path ''b.com'' (empty_locals, one_record_world)"
  let ?a = "JObj [(''domain'', JStr ''a.com''), (''status'', JStr ''available'')]"
  let ?be = "JObj [(''domain'', JStr ''b.com''), (''status'', JStr ''error'')]"
  note C7 = C7_domain_failure_is_contained
      [of "[''a.com'', ''b.com'']" demo_env 1 store_path empty_locals corrupting_world "''a.com''"]
  note C7b = C7_domain_failure_is_contained
      [of "[]" demo_env 1 store_path empty_locals one_record_world "''b.com''"]
  note C7a = C7_domain_failure_is_contained
      [of "[]" demo_env 1 store_path empty_locals one_record_world "''a.com''"]
  have s: "JSON_stringify demo_env = json_stringify" by (simp add: demo_env_def)
  have ft: "fst ?t = Inl TypeError" by code_simp
  have et: "?t = (Inl TypeError, (fst (snd ?t), snd (snd ?t)))"
    by (rule prod_eqI) (simp_all only: fst_conv snd_conv ft prod.collapse)
  have p: "process_domain demo_env 1 store_path ''a.com'' (empty_locals, corrupting_world)
           = domain_catch demo_env 1 store_path ''a.com'' (snd ?t)"
    using C7[THEN conjunct2, THEN conjunct1, rule_format, OF et]
    by (simp only: prod.collapse)
  obtain l' w' where f: "?f = (Inr (), (l', w'))"
    and st: "starts (emitted corrupting_world w') = [''a.com'', ''b.com'']"
    using C7[THEN conjunct1] by blast
  have f1: "fst ?f = Inr ()" using f by simp
  have f2: "snd (snd ?f) = w'" using f by simp
  have st': "starts (emitted corrupting_world (snd (snd ?f))) = [''a.com'', ''b.com'']"
    unfolding f2 by (rule st)
  have fl: "files (snd (snd ?f)) store_path
     = Some ''[\<newline>    {\<newline>        \"domain\": \"a.com\",\<newline>        \"status\": \"error\"\<newline>    },\<newline>    {\<newline>        \"domain\": \"b.com\",\<newline>        \"status\": \"unavailable\"\<newline>    }\<newline>]''"
    by code_simp
  have ps: "JSON_parse demo_env one_record_text = Some (JArr [?a])" by code_simp
  have m: "EvRename (store_path @ ''.tmp'') store_path (json_stringify (JArr [?a, ?be]))
      \<in> set (emitted one_record_world (snd (snd ?cb)))"
    by code_simp
  obtain l2 w2 where r2: "?cb = (Inr (), (l2, w2))"
    and all: "\<forall>src c. EvRename src store_path c \<in> set (emitted one_record_world w2) \<longrightarrow>
        (\<exists>es. c = JSON_stringify demo_env (JArr (es @ [?be]))
            \<and> Some (JStr ''b.com'') \<notin> set (map (prop_of ''domain'') es)
            \<and> read_before demo_env store_path es (emitted one_record_world w2))"
    using C7b[THEN conjunct2, THEN conjunct2, THEN conjunct1] by blast
  have w2: "snd (snd ?cb) = w2" unfolding r2 by simp
  have ex: "\<exists>es. json_stringify (JArr [?a, ?be]) = JSON_stringify demo_env (JArr (es @ [?be]))
          \<and> Some (JStr ''b.com'') \<notin> set (map (prop_of ''domain'') es)
          \<and> read_before demo_env store_path es (emitted one_record_world (snd (snd ?cb)))"
    unfolding w2 using all m[unfolded w2] by blast
  have tr: "trim one_record_text \<noteq> []" by code_simp
  have h: "faults one_record_world = [] \<and> pending one_record_world = []
      \<and> files one_record_world store_path = Some one_record_text \<and> trim one_record_text \<noteq> []
      \<and> JSON_parse demo_env one_record_text = Some (JArr [?a]) \<and> JNull \<notin> set [?a]"
    using tr ps by (simp add: one_record_world_def store_world_def)
  have ab: "Some (JStr ''b.com'') \<notin> set (map (prop_of ''domain'') [?a])"
    by (simp add: prop_of_def)
  have pr: "Some (JStr ''a.com'') \<in> set (map (prop_of ''domain'') [?a])"
    by (simp add: prop_of_def)
  have fb: "files (snd (snd ?cb)) store_path = Some (json_stringify (JArr [?a, ?be]))"
    using C7b[THEN conjunct2, THEN conjunct2, THEN conjunct2, THEN conjunct1, rule_format, OF h,
        THEN conjunct1, rule_format, OF ab]
    unfolding s by simp
  have fbl: "files (snd (snd ?cb)) store_path
     = Some ''[\<newline>    {\<newline>        \"domain\": \"a.com\",\<newline>        \"status\": \"available\"\<newline>    },\<newline>    {\<newline>        \"domain\": \"b.com\",\<newline>        \"status\": \"error\"\<newline>    }\<newline>]''"
    by code_simp
  have fa: "files (snd (snd (domain_catch demo_env 1 store_path ''a.com''
                        (empty_locals, one_record_world)))) = files one_record_world"
    using C7a[THEN conjunct2, THEN conjunct2, THEN conjunct2, THEN conjunct1, rule_format, OF h,
        THEN conjunct2, rule_format, OF pr] .
  have pf: "probe failing_probe_env ''b.com'' = Inl RemoteError"
    by (simp add: failing_probe_env_def)
  have psf: "JSON_parse failing_probe_env one_record_text = Some (JArr [?a])"
    using ps by (simp add: failing_probe_env_def)
  have sf: "JSON_stringify failing_probe_env = json_stringify"
    by (simp add: failing_probe_env_def demo_env_def)
  have hp: "faults one_record_world = [] \<and> pending one_record_world = []
      \<and> files one_record_world store_path = Some one_record_text \<and> trim one_record_text \<noteq> []
      \<and> JSON_parse failing_probe_env one_record_text = Some (JArr [?a]) \<and> JNull \<notin> set [?a]
      \<and> Some (JStr ''b.com'') \<notin> set (map (prop_of ''domain'') [?a])
      \<and> Some (JStr ''b.com'') \<notin> checkedDomainsSet empty_locals
      \<and> probe failing_probe_env ''b.com'' = Inl RemoteError"
    using tr psf pf ab by (simp add: one_record_world_def store_world_def empty_locals_def)
  have fq: "files (snd (snd (process_domain failing_probe_env 1 store_path ''b.com''
                        (empty_locals, one_record_world)))) store_path
        = Some (json_stringify (JArr [?a, ?be]))"
    using C7_domain_failure_is_contained
        [of "[]" failing_probe_env 1 store_path empty_locals one_record_world "''b.com''",
         THEN conjunct2, THEN conjunct2, THEN conjunct2, THEN conjunct2, rule_format, OF hp]
    unfolding sf by simp
  have tx: "json_stringify (JArr [?a, ?be])
     = ''[\<newline>    {\<newline>        \"domain\": \"a.com\",\<newline>        \"status\": \"available\"\<newline>    },\<newline>    {\<newline>        \"domain\": \"b.com\",\<newline>        \"status\": \"error\"\<newline>    }\<newline>]''"
    by code_simp
  note fql = fq[unfolded tx]
  show ?thesis by (intro conjI) (rule ft p f1 st' fl ps m ex fb fbl fa pf fql)+
qed

section \<open>The skip check\<close>

text \<open>
  C3.  An iteration of a worker tests its domain against the set of domains the worker
  cached at its last load of the store, without loading the store: when the domain is in
  that set, the iteration logs that it skips the domain and does nothing else.
  Otherwise it invokes the checker and loads the store; then, when the domain is among
  those of the store loaded, it saves nothing and logs that it skips the save, and when
  it is not, it saves the sequence loaded with the new record appended.
\<close>

theorem C3_skip_check_uses_cached_domains:
  "(Some (JStr d) \<in> checkedDomainsSet l \<longrightarrow>
      domain_try E n p d (l, w) = (Inr (), (l, emit (EvLog (Skipping n d)) w)))
   \<and> (Some (JStr d) \<notin> checkedDomainsSet l \<longrightarrow>
        (\<exists>st w1 v w2.
           await (checkDomainAvailability E d) (emit (EvLog (Checking n d)) w) = (Inr st, w1)
           \<and> await (safelyReadResultsFile E p) w1 = (Inr v, w2)
           \<and> (case map_domain v of
                 Inl e \<Rightarrow> domain_try E n p d (l, w) = (Inl e, (l\<lparr>currentResults := v\<rparr>, w2))
               | Inr ds \<Rightarrow>
                   if Some (JStr d) \<in> set ds then
                     domain_try E n p d (l, w)
                     = (Inr (), (l\<lparr>currentResults := v, checkedDomainsSet := set ds\<rparr>,
                                 emit (EvLog (SkippingSave n d)) w2))
                   else
                     (\<exists>es b w3. v = JArr es
                        \<and> await (safelyWriteResultsFile E p (JArr (es @ [DomainEntry d st]))) w2
                          = (Inr b, w3)
                        \<and> domain_try E n p d (l, w)
                          = (Inr (), (l\<lparr>currentResults := JArr (es @ [DomainEntry d st]),
                                        checkedDomainsSet := insert (Some (JStr d)) (set ds)\<rparr>,
                                      emit (EvLog (Saved n d)) w3))))))"
proof (intro conjI impI)
  assume "Some (JStr d) \<in> checkedDomainsSet l"
  then show "domain_try E n p d (l, w) = (Inr (), (l, emit (EvLog (Skipping n d)) w))"
    by (rule domain_try_skip)
next
  assume fresh: "Some (JStr d) \<notin> checkedDomainsSet l"
  let ?w0 = "emit (EvLog (Checking n d)) w"
  obtain st w1 where c: "await (checkDomainAvailability E d) ?w0 = (Inr st, w1)"
    using check_spec by blast
  obtain v w2 where ld: "await (safelyReadResultsFile E p) w1 = (Inr v, w2)"
    using load_spec by blast
  have "case map_domain v of
                 Inl e \<Rightarrow> domain_try E n p d (l, w) = (Inl e, (l\<lparr>currentResults := v\<rparr>, w2))
               | Inr ds \<Rightarrow>
                   if Some (JStr d) \<in> set ds then
                     domain_try E n p d (l, w)
                     = (Inr (), (l\<lparr>currentResults := v, checkedDomainsSet := set ds\<rparr>,
                                 emit (EvLog (SkippingSave n d)) w2))
                   else
                     (\<exists>es b w3. v = JArr es
                        \<and> await (safelyWriteResultsFile E p (JArr (es @ [DomainEntry d st]))) w2
                          = (Inr b, w3)
                        \<and> domain_try E n p d (l, w)
                          = (Inr (), (l\<lparr>currentResults := JArr (es @ [DomainEntry d st]),
                                        checkedDomainsSet := insert (Some (JStr d)) (set ds)\<rparr>,
                                      emit (EvLog (Saved n d)) w3)))"
  proof (cases "map_domain v")
    case (Inl e)
    then show ?thesis using domain_try_malformed[OF fresh c ld Inl] by simp
  next
    case (Inr ds)
    show ?thesis
    proof (cases "Some (JStr d) \<in> set ds")
      case True
      then show ?thesis using domain_try_discard[OF fresh c ld Inr True] Inr by simp
    next
      case False
      obtain es where v: "v = JArr es" using map_domain_Inr[OF Inr] by blast
      obtain b w3 where sv:
        "await (safelyWriteResultsFile E p (JArr (es @ [DomainEntry d st]))) w2 = (Inr b, w3)"
        using save_spec by blast
      have "domain_try E n p d (l, w)
            = (Inr (), (l\<lparr>currentResults := JArr (es @ [DomainEntry d st]),
                          checkedDomainsSet := insert (Some (JStr d)) (set ds)\<rparr>,
                        emit (EvLog (Saved n d)) w3))"
        using domain_try_append[OF fresh c ld[unfolded v] Inr[unfolded v] False sv] .
      then show ?thesis using Inr False v sv by simp
    qed
  qed
  then show "\<exists>st w1 v w2.
           await (checkDomainAvailability E d) ?w0 = (Inr st, w1)
           \<and> await (safelyReadResultsFile E p) w1 = (Inr v, w2)
           \<and> (case map_domain v of
                 Inl e \<Rightarrow> domain_try E n p d (l, w) = (Inl e, (l\<lparr>currentResults := v\<rparr>, w2))
               | Inr ds \<Rightarrow>
                   if Some (JStr d) \<in> set ds then
                     domain_try E n p d (l, w)
                     = (Inr (), (l\<lparr>currentResults := v, checkedDomainsSet := set ds\<rparr>,
                                 emit (EvLog (SkippingSave n d)) w2))
                   else
                     (\<exists>es b w3. v = JArr es
                        \<and> await (safelyWriteResultsFile E p (JArr (es @ [DomainEntry d st]))) w2
                          = (Inr b, w3)
                        \<and> domain_try E n p d (l, w)
                          = (Inr (), (l\<lparr>currentResults := JArr (es @ [DomainEntry d st]),
                                        checkedDomainsSet := insert (Some (JStr d)) (set ds)\<rparr>,
                                      emit (EvLog (Saved n d)) w3))))"
    using c ld by blast
qed

theorem C3_cached_skip_witness:
  "Some (JStr ''a.com'') \<in> checkedDomainsSet a_locals
   \<and> domain_try demo_env 1 store_path ''a.com'' (a_locals, store_world ''[]'')
     = (Inr (), (a_locals, emit (EvLog (Skipping 1 ''a.com'')) (store_world ''[]'')))
   \<and> files (snd (snd (domain_try demo_env 1 store_path ''a.com'' (a_locals, store_world ''[]''))))
        store_path = Some ''[]''
   \<and> Some (JStr ''b.com'') \<notin> checkedDomainsSet a_locals
   \<and> (\<exists>st w1 v w2.
           await (checkDomainAvailability demo_env ''b.com'')
             (emit (EvLog (Checking 1 ''b.com'')) a_world) = (Inr st, w1)
           \<and> await (safelyReadResultsFile demo_env store_path) w1 = (Inr v, w2)
           \<and> (case map_domain v of
                 Inl e \<Rightarrow> domain_try demo_env 1 store_path ''b.com'' (a_locals, a_world)
                          = (Inl e, (a_locals\<lparr>currentResults := v\<rparr>, w2))
               | Inr ds \<Rightarrow>
                   if Some (JStr ''b.com'') \<in> set ds then
                     domain_try demo_env 1 store_path ''b.com'' (a_locals, a_world)
                     = (Inr (), (a_locals\<lparr>currentResults := v, checkedDomainsSet := set ds\<rparr>,
                                 emit (EvLog (SkippingSave 1 ''b.com'')) w2))
                   else
                     (\<exists>es b w3. v = JArr es
                        \<and> await (safelyWriteResultsFile demo_env store_path
                                    (JArr (es @ [DomainEntry ''b.com'' st]))) w2
                          = (Inr b, w3)
                        \<and> domain_try demo_env 1 store_path ''b.com'' (a_locals, a_world)
                          = (Inr (), (a_locals\<lparr>currentResults := JArr (es @ [DomainEntry ''b.com'' st]),
                                        checkedDomainsSet := insert (Some (JStr ''b.com'')) (set ds)\<rparr>,
                                      emit (EvLog (Saved 1 ''b.com'')) w3)))))
   \<and> files (snd (snd (domain_try demo_env 1 store_path ''b.com'' (a_locals, a_world)))) store_path
     = Some (json_stringify (JArr [DomainEntry ''a.com'' Available, DomainEntry ''b.com'' Unavailable]))"
proof -
  have a: "Some (JStr ''a.com'') \<in> checkedDomainsSet a_locals" by (simp add: a_locals_def)
  have b: "Some (JStr ''b.com'') \<notin> checkedDomainsSet a_locals" by (simp add: a_locals_def)
  have fa: "files (snd (snd (domain_try demo_env 1 store_path ''a.com''
               (a_locals, store_world ''[]'')))) store_path = Some ''[]''"
    by code_simp
  have fb: "files (snd (snd (domain_try demo_env 1 store_path ''b.com'' (a_locals, a_world))))
        store_path
     = Some (json_stringify (JArr [DomainEntry ''a.com'' Available, DomainEntry ''b.com'' Unavailable]))"
    by code_simp
  note sk = C3_skip_check_uses_cached_domains
      [of "''a.com''" a_locals demo_env 1 store_path "store_world ''[]''",
        THEN conjunct1, rule_format, OF a]
  note ap = C3_skip_check_uses_cached_domains
      [of "''b.com''" a_locals demo_env 1 store_path a_world, THEN conjunct2, rule_format, OF b]
  show ?thesis by (intro conjI) (rule a sk fa b ap fb)+
qed

text \<open>
  A worker whose store gains a record for \<open>b.com\<close> after the baseline load does not load
  the store again before it decides whether to skip \<open>b.com\<close>: it invokes the checker,
  and finds the record only at the load that follows.
\<close>

theorem C3_stale_skip_check_counterexample:
  "trace (snd (processDomainBatch demo_env [''b.com''] 1 store_path racing_world))
   = [EvSession 1,
      EvRead store_path ''[]'',
      EvExt (ExtWrite store_path (json_stringify (JArr [DomainEntry ''b.com'' Available]))),
      EvLog (Checking 1 ''b.com''),
      EvProbe ''b.com'',
      EvRead store_path (json_stringify (JArr [DomainEntry ''b.com'' Available])),
      EvLog (SkippingSave 1 ''b.com''),
      EvClose 1,
      EvLog (SessionClosed 1)]"
  by code_simp

section \<open>The form of the stored domains\<close>




end
